theory Spec2Isabelle
  imports Main "HOL-Library.Multiset" "HOL-Library.AList" "HOL-Library.Stream"
begin

section \<open>Long-Term Feature Bank (mmaction/models/common/lfb.py)\<close>

subsection \<open>Errors, tensors and the random source\<close>

text \<open>
  Every exception the module can raise is a value. \<open>ValueError\<close>, \<open>AssertionError\<close>,
  \<open>KeyError\<close>, \<open>IndexError\<close>, \<open>AttributeError\<close> and \<open>EOFError\<close> are the Python
  built-ins; \<open>RuntimeError\<close> is what torch raises on a bad shape; \<open>FileNotFoundError\<close>
  and \<open>LmdbError\<close> come from opening a file or a store that is not there;
  \<open>BadValsizeError\<close> is what lmdb raises on a key of a size it does not support.
\<close>

datatype error =
    ValueError | AssertionError | KeyError | IndexError | AttributeError
  | EOFError | RuntimeError | FileNotFoundError | LmdbError | BadValsizeError

datatype dtype = Float16 | Float32 | Float64

text \<open>
  A two-dimensional tensor: its element type and its rows. The element values are of an
  arbitrary type \<open>'a\<close> with a zero; converting a value between element types is the
  parameter \<open>cvt src dst\<close> of the functions that copy rows.
\<close>

record 'a tensor =
  t_dtype :: dtype
  t_rows :: "'a list list"

text \<open>\<open>torch.zeros(n, c)\<close>: default element type float32; a negative size raises.\<close>

definition torch_zeros :: "int \<Rightarrow> int \<Rightarrow> error + ('a::zero) tensor" where
  "torch_zeros n c =
     (if n < 0 \<or> c < 0 then Inl RuntimeError
      else Inr \<lparr>t_dtype = Float32, t_rows = replicate (nat n) (replicate (nat c) 0)\<rparr>)"

text \<open>\<open>t[r]\<close> for an index produced by the sampler (a natural number).\<close>

definition tensor_getrow :: "'a tensor \<Rightarrow> nat \<Rightarrow> error + 'a list" where
  "tensor_getrow t r = (if r < length (t_rows t) then Inr (t_rows t ! r) else Inl IndexError)"

text \<open>
  \<open>t[i] = row\<close>: a negative index counts from the end, an index out of range raises
  IndexError; the row is converted to the element type of \<open>t\<close>; a row of another length
  is broadcast when it has one element and raises RuntimeError otherwise.
\<close>

definition tensor_setrow ::
  "(dtype \<Rightarrow> dtype \<Rightarrow> 'a \<Rightarrow> 'a) \<Rightarrow> 'a tensor \<Rightarrow> int \<Rightarrow> int \<Rightarrow> dtype \<Rightarrow> 'a list \<Rightarrow> error + 'a tensor" where
  "tensor_setrow cvt t i c src row =
     (let n = int (length (t_rows t));
          j = (if i < 0 then n + i else i)
      in if j < 0 \<or> n \<le> j then Inl IndexError
         else if int (length row) = c then
           Inr (t\<lparr>t_rows := (t_rows t)[nat j := map (cvt src (t_dtype t)) row]\<rparr>)
         else if length row = 1 then
           Inr (t\<lparr>t_rows := (t_rows t)[nat j := replicate (nat c) (cvt src (t_dtype t) (hd row))]\<rparr>)
         else Inl RuntimeError)"

text \<open>
  The state of numpy's global generator is a stream of raw draws. \<open>random_interval g m\<close>
  is a number in \<open>0..m\<close> and the rest of the stream.
\<close>

type_synonym rng = "nat stream"

definition random_interval :: "rng \<Rightarrow> nat \<Rightarrow> nat \<times> rng" where
  "random_interval g m = (shd g mod (m + 1), stl g)"

definition swap :: "'a list \<Rightarrow> nat \<Rightarrow> nat \<Rightarrow> 'a list" where
  "swap xs i j = xs[i := xs ! j, j := xs ! i]"

text \<open>
  numpy's \<open>shuffle\<close> (Fisher-Yates): for i from n-1 down to 1, swap x[i] with x[j] for a
  drawn j in 0..i. \<open>shuffle_from i\<close> runs the positions i, i-1, .., 1.
\<close>

fun shuffle_from :: "nat \<Rightarrow> 'a list \<Rightarrow> rng \<Rightarrow> 'a list \<times> rng" where
  "shuffle_from 0 xs g = (xs, g)"
| "shuffle_from (Suc i) xs g =
     (case random_interval g (Suc i) of (j, g') \<Rightarrow> shuffle_from i (swap xs (Suc i) j) g')"

definition permutation :: "nat \<Rightarrow> rng \<Rightarrow> nat list \<times> rng" where
  "permutation n g = shuffle_from (n - 1) [0..<n] g"

text \<open>
  \<open>np.random.choice(range(pop), sz, replace=False)\<close>: the first \<open>sz\<close> entries of a
  random permutation of \<open>0..pop-1\<close>; a negative size, or a sample larger than the
  population, raises ValueError.
\<close>

definition np_random_choice :: "int \<Rightarrow> int \<Rightarrow> rng \<Rightarrow> error + (nat list \<times> rng)" where
  "np_random_choice pop sz g =
     (if sz < 0 then Inl ValueError
      else if pop < sz then Inl ValueError
      else (case permutation (nat pop) g of (p, g') \<Rightarrow> Inr (take (nat sz) p, g')))"

subsection \<open>The feature bank object\<close>

text \<open>
  An attribute that \<open>__init__\<close> sets on one branch only (\<open>lfb\<close>, \<open>lfb_lmdb_path\<close>,
  \<open>lmdb_env\<close>) is an option: reading it where it was never set raises AttributeError.
  \<open>lmdb_map_size\<close> and \<open>construct_lmdb\<close> are stored and only read back inside
  \<open>__init__\<close>; they stay arguments there.

  The features of one video: a dict from the second to the tensor of the ROI features of
  that second. The bank is a dict from video id to these; Python dicts keep insertion
  order, so it is an association list updated in place.
\<close>

type_synonym 'a video_features = "int \<rightharpoonup> 'a tensor"

type_synonym 'a bank = "(string \<times> 'a video_features) list"

record 'a LFB =
  lfb_prefix_path :: string
  max_num_sampled_feat :: int
  window_size :: int
  lfb_channels :: int
  dataset_modes :: "string list"
  device :: string
  lfb :: "'a bank option"
  lfb_lmdb_path :: "string option"
  lmdb_env :: "(string \<rightharpoonup> string) option"

text \<open>\<open>str.encode()\<close>: strings are kept as their bytes, so encoding changes nothing.\<close>

definition encode :: "string \<Rightarrow> string" where
  "encode s = s"

text \<open>
  An lmdb store is a map from keys to values. \<open>txn.get(key)\<close> raises BadValsizeError on
  the empty key and gives None for a key that is not stored; \<open>txn.put(key, value)\<close>
  raises BadValsizeError on the empty key and on a key of more than 511 bytes (the
  largest key of a store with the default settings), and overwrites otherwise.
\<close>

definition txn_get :: "(string \<rightharpoonup> string) \<Rightarrow> string \<Rightarrow> error + string option" where
  "txn_get txn key = (if key = [] then Inl BadValsizeError else Inr (txn key))"

definition txn_put ::
  "(string \<rightharpoonup> string) \<Rightarrow> string \<Rightarrow> string \<Rightarrow> error + (string \<rightharpoonup> string)" where
  "txn_put txn key val =
     (if key = [] \<or> 511 < length key then Inl BadValsizeError else Inr (txn(key \<mapsto> val)))"

text \<open>
  \<open>torch.load(io.BytesIO(buf))\<close>: \<open>txn.get\<close> gives None for a key that is not stored,
  \<open>io.BytesIO(None)\<close> is the empty buffer, and loading from an exhausted buffer raises
  EOFError; any other buffer is decoded by the unpickler \<open>loads\<close>.
\<close>

definition bytes_io :: "string option \<Rightarrow> string" where
  "bytes_io buf = (case buf of None \<Rightarrow> [] | Some b \<Rightarrow> b)"

definition torch_load_buf :: "(string \<Rightarrow> error + 'v) \<Rightarrow> string \<Rightarrow> error + 'v" where
  "torch_load_buf loads b = (if b = [] then Inl EOFError else loads b)"

text \<open>Lines 154-159: the features of the video, from the store or from the dict.\<close>

definition get_video_features ::
  "(string \<Rightarrow> error + 'a video_features) \<Rightarrow> 'a LFB \<Rightarrow> string \<Rightarrow> error + 'a video_features" where
  "get_video_features loads self video_id =
     (if device self = ''lmdb'' then
        (case lmdb_env self of
           None \<Rightarrow> Inl AttributeError
         | Some txn \<Rightarrow>
             (case txn_get txn (encode video_id) of
                Inl e \<Rightarrow> Inl e
              | Inr buf \<Rightarrow> torch_load_buf loads (bytes_io buf)))
      else
        (case lfb self of
           None \<Rightarrow> Inl AttributeError
         | Some d \<Rightarrow> (case map_of d video_id of None \<Rightarrow> Inl KeyError | Some vf \<Rightarrow> Inr vf)))"

text \<open>Lines 175-176: \<open>for k, rand_idx in enumerate(random_lfb_indices)\<close>.\<close>

fun assign_rows ::
  "(dtype \<Rightarrow> dtype \<Rightarrow> 'a \<Rightarrow> 'a) \<Rightarrow> 'a LFB \<Rightarrow> 'a tensor \<Rightarrow> 'a tensor \<Rightarrow> nat \<Rightarrow> nat \<Rightarrow> nat list
     \<Rightarrow> error + 'a tensor" where
  "assign_rows cvt self lt feats idx k [] = Inr lt"
| "assign_rows cvt self lt feats idx k (rand_idx # rest) =
     (case tensor_getrow feats rand_idx of
        Inl e \<Rightarrow> Inl e
      | Inr row \<Rightarrow>
          (case tensor_setrow cvt lt (int idx * max_num_sampled_feat self + int k)
                  (lfb_channels self) (t_dtype feats) row of
             Inl e \<Rightarrow> Inl e
           | Inr lt' \<Rightarrow> assign_rows cvt self lt' feats idx (Suc k) rest))"

text \<open>Lines 169-173: the indices drawn for the features of one second.\<close>

definition random_lfb_indices :: "'a LFB \<Rightarrow> 'a tensor \<Rightarrow> rng \<Rightarrow> error + (nat list \<times> rng)" where
  "random_lfb_indices self feats g =
     (let num_feat = int (length (t_rows feats));
          num_feat_sampled = min num_feat (max_num_sampled_feat self)
      in np_random_choice num_feat num_feat_sampled g)"

text \<open>Lines 166-176: \<open>for idx, sec in enumerate(range(start, start + window_size))\<close>.\<close>

fun sample_loop ::
  "(dtype \<Rightarrow> dtype \<Rightarrow> 'a \<Rightarrow> 'a) \<Rightarrow> 'a LFB \<Rightarrow> 'a video_features \<Rightarrow> 'a tensor \<Rightarrow> nat \<Rightarrow> int list \<Rightarrow> rng
     \<Rightarrow> error + ('a tensor \<times> rng)" where
  "sample_loop cvt self vf lt idx [] g = Inr (lt, g)"
| "sample_loop cvt self vf lt idx (sec # secs) g =
     (case vf sec of
        None \<Rightarrow> sample_loop cvt self vf lt (Suc idx) secs g
      | Some feats \<Rightarrow>
          (case random_lfb_indices self feats g of
             Inl e \<Rightarrow> Inl e
           | Inr (indices, g') \<Rightarrow>
               (case assign_rows cvt self lt feats idx 0 indices of
                  Inl e \<Rightarrow> Inl e
                | Inr lt' \<Rightarrow> sample_loop cvt self vf lt' (Suc idx) secs g')))"

text \<open>\<open>range(a, b)\<close> over Python integers.\<close>

definition py_range :: "int \<Rightarrow> int \<Rightarrow> int list" where
  "py_range a b = [a..b - 1]"

definition sample_long_term_features ::
  "(dtype \<Rightarrow> dtype \<Rightarrow> 'a \<Rightarrow> 'a) \<Rightarrow> (string \<Rightarrow> error + 'a video_features) \<Rightarrow> 'a LFB \<Rightarrow> string \<Rightarrow> int \<Rightarrow> rng
     \<Rightarrow> error + (('a::zero) tensor \<times> rng)" where
  "sample_long_term_features cvt loads self video_id timestamp g =
     (case get_video_features loads self video_id of
        Inl e \<Rightarrow> Inl e
      | Inr video_features \<Rightarrow>
          (let K = max_num_sampled_feat self;
               start = timestamp - (window_size self div 2)
           in case torch_zeros (window_size self * K) (lfb_channels self) of
                Inl e \<Rightarrow> Inl e
              | Inr lt_feats \<Rightarrow>
                  sample_loop cvt self video_features lt_feats 0
                    (py_range start (start + window_size self)) g))"

subsection \<open>The combined-key accessor\<close>

text \<open>\<open>str.split(sep)\<close> for a one-character separator.\<close>

fun str_split :: "char \<Rightarrow> string \<Rightarrow> string list" where
  "str_split c [] = [[]]"
| "str_split c (x # xs) =
     (if x = c then [] # str_split c xs
      else (case str_split c xs of [] \<Rightarrow> [[x]] | w # ws \<Rightarrow> (x # w) # ws))"

text \<open>
  Strings are kept as their UTF-8 bytes. What \<open>int\<close> needs of the interpreter:
  \<open>max_str_digits\<close> is \<open>sys.get_int_max_str_digits()\<close>, the largest number of digits
  \<open>int\<close> converts (0 where there is no limit: interpreters before the limit was
  introduced, or the limit switched off; 4300 by default where there is one), and
  \<open>int_non_ascii\<close> is the result of \<open>int\<close> on a string that has a character outside
  ASCII, which goes through the Unicode tables of decimal digits and whitespace.
\<close>

record interp =
  max_str_digits :: nat
  int_non_ascii :: "string \<Rightarrow> int option"

definition is_ascii :: "char \<Rightarrow> bool" where
  "is_ascii c = ((of_char c :: nat) < 128)"

text \<open>
  \<open>int(s)\<close> on an ASCII string, base 10: the whitespace characters tab, newline,
  vertical tab, form feed, carriage return and space are skipped on both sides, one
  sign is allowed, then decimal digits, where single underscores may stand between
  digits; a number that is over the limit on the digits raises ValueError as well.
\<close>

definition is_space :: "char \<Rightarrow> bool" where
  "is_space c = ((of_char c :: nat) \<in> {9, 10, 11, 12, 13, 32})"

definition is_digit :: "char \<Rightarrow> bool" where
  "is_digit c = (48 \<le> (of_char c :: nat) \<and> (of_char c :: nat) \<le> 57)"

definition digit_val :: "char \<Rightarrow> nat" where
  "digit_val c = of_char c - 48"

definition str_strip :: "string \<Rightarrow> string" where
  "str_strip s = rev (dropWhile is_space (rev (dropWhile is_space s)))"

fun parse_digits :: "nat \<Rightarrow> string \<Rightarrow> nat option" where
  "parse_digits acc [] = Some acc"
| "parse_digits acc [c] = (if is_digit c then Some (acc * 10 + digit_val c) else None)"
| "parse_digits acc (c # d # ds) =
     (if is_digit c then parse_digits (acc * 10 + digit_val c) (d # ds)
      else if c = CHR ''_'' \<and> is_digit d then parse_digits (acc * 10 + digit_val d) ds
      else None)"

text \<open>
  The check of the limit: only a number of more than 640 digits is checked, against the
  limit when there is one.
\<close>

definition over_limit :: "nat \<Rightarrow> nat \<Rightarrow> bool" where
  "over_limit limit digits = (640 < digits \<and> 0 < limit \<and> limit < digits)"

definition parse_unsigned :: "nat \<Rightarrow> string \<Rightarrow> nat option" where
  "parse_unsigned limit s =
     (case s of
        [] \<Rightarrow> None
      | d # ds \<Rightarrow>
          if is_digit d then
            (case parse_digits (digit_val d) ds of
               None \<Rightarrow> None
             | Some n \<Rightarrow> if over_limit limit (length (filter is_digit s)) then None else Some n)
          else None)"

definition ascii_int :: "nat \<Rightarrow> string \<Rightarrow> int option" where
  "ascii_int limit s =
     (case str_strip s of
        [] \<Rightarrow> None
      | c # cs \<Rightarrow>
          if c = CHR ''-'' then map_option (\<lambda>n. - int n) (parse_unsigned limit cs)
          else if c = CHR ''+'' then map_option int (parse_unsigned limit cs)
          else map_option int (parse_unsigned limit (c # cs)))"

definition py_int :: "interp \<Rightarrow> string \<Rightarrow> int option" where
  "py_int ip s =
     (if list_all is_ascii s then ascii_int (max_str_digits ip) s else int_non_ascii ip s)"

text \<open>
  Lines 181-185: \<open>video_id, timestamp = img_key.split(',')\<close> raises ValueError unless
  the split has exactly two parts, and so does \<open>int(timestamp)\<close> on a string that is
  not an integer.
\<close>

definition getitem ::
  "(dtype \<Rightarrow> dtype \<Rightarrow> 'a \<Rightarrow> 'a) \<Rightarrow> (string \<Rightarrow> error + 'a video_features) \<Rightarrow> interp \<Rightarrow> 'a LFB \<Rightarrow> string
     \<Rightarrow> rng \<Rightarrow> error + (('a::zero) tensor \<times> rng)" where
  "getitem cvt loads ip self img_key g =
     (case str_split CHR '','' img_key of
        [video_id, timestamp] \<Rightarrow>
          (case py_int ip timestamp of
             None \<Rightarrow> Inl ValueError
           | Some t \<Rightarrow> sample_long_term_features cvt loads self video_id t g)
      | _ \<Rightarrow> Inl ValueError)"

subsection \<open>Construction\<close>

text \<open>
  What construction reads and writes outside the object: which paths exist, what
  \<open>torch.load\<close> finds in each file, whether \<open>import lmdb\<close> succeeded, the rank and
  world size of \<open>get_dist_info()\<close>, the lmdb stores by directory, the path
  normalisation of the platform, and the number of warnings issued.
\<close>

record 'a env =
  path_exists :: "string \<Rightarrow> bool"
  files :: "string \<rightharpoonup> 'a bank"
  lmdb_imported :: bool
  rank :: nat
  world_size :: nat
  lmdb_dirs :: "string \<rightharpoonup> (string \<rightharpoonup> string)"
  normpath :: "string \<Rightarrow> string"
  warnings :: nat

text \<open>\<open>dataset_modes\<close> is a tuple of strings or one string.\<close>

datatype modes = ModeTuple "string list" | ModeStr string

text \<open>\<open>os.path.join(a, b)\<close> (posix) for a second part that is relative.\<close>

definition osp_join :: "string \<Rightarrow> string \<Rightarrow> string" where
  "osp_join a b = (if a = [] \<or> last a = CHR ''/'' then a @ b else a @ ''/'' @ b)"

definition lfb_path :: "'a env \<Rightarrow> string \<Rightarrow> string \<Rightarrow> string" where
  "lfb_path ev prefix dataset_mode =
     normpath ev (osp_join prefix (''lfb_'' @ dataset_mode @ ''.pkl''))"

text \<open>\<open>d.update(other)\<close>: every item of \<open>other\<close>, in its order, is stored into \<open>d\<close>.\<close>

definition dict_update :: "('k \<times> 'v) list \<Rightarrow> ('k \<times> 'v) list \<Rightarrow> ('k \<times> 'v) list" where
  "dict_update d other = fold (\<lambda>(k, v). AList.update k v) other d"

text \<open>The loop of lines 127-131 and 136-139, from the dict built so far.\<close>

fun load_modes :: "'a env \<Rightarrow> string \<Rightarrow> 'a bank \<Rightarrow> string list \<Rightarrow> error + 'a bank" where
  "load_modes ev prefix d [] = Inr d"
| "load_modes ev prefix d (dataset_mode # rest) =
     (case files ev (lfb_path ev prefix dataset_mode) of
        None \<Rightarrow> Inl FileNotFoundError
      | Some loaded \<Rightarrow> load_modes ev prefix (dict_update d loaded) rest)"

definition load_lfb :: "'a env \<Rightarrow> 'a LFB \<Rightarrow> error + 'a LFB" where
  "load_lfb ev self =
     (case load_modes ev (lfb_prefix_path self) [] (dataset_modes self) of
        Inl e \<Rightarrow> Inl e
      | Inr d \<Rightarrow> Inr (self\<lparr>lfb := Some d\<rparr>))"

text \<open>
  Lines 142-149: one write transaction for each item of the merged dict; \<open>dumps\<close> is
  what \<open>torch.save\<close> writes into the buffer. A put that raises ends the construction.
\<close>

fun lmdb_put_all ::
  "('v \<Rightarrow> string) \<Rightarrow> (string \<times> 'v) list \<Rightarrow> (string \<rightharpoonup> string) \<Rightarrow> error + (string \<rightharpoonup> string)" where
  "lmdb_put_all dumps [] store = Inr store"
| "lmdb_put_all dumps ((key, val) # items) store =
     (case txn_put store (encode key) (dumps val) of
        Inl e \<Rightarrow> Inl e
      | Inr store' \<Rightarrow> lmdb_put_all dumps items store')"

definition load_lfb_on_lmdb ::
  "('a video_features \<Rightarrow> string) \<Rightarrow> 'a env \<Rightarrow> 'a LFB \<Rightarrow> error + 'a env" where
  "load_lfb_on_lmdb dumps ev self =
     (case load_modes ev (lfb_prefix_path self) [] (dataset_modes self) of
        Inl e \<Rightarrow> Inl e
      | Inr d \<Rightarrow>
          (case lfb_lmdb_path self of
             None \<Rightarrow> Inl AttributeError
           | Some path \<Rightarrow>
               (let store = (case lmdb_dirs ev path of None \<Rightarrow> Map.empty | Some st \<Rightarrow> st)
                in case lmdb_put_all dumps d store of
                     Inl e \<Rightarrow> Inl e
                   | Inr store' \<Rightarrow> Inr (ev\<lparr>lmdb_dirs := (lmdb_dirs ev)(path \<mapsto> store')\<rparr>))))"

text \<open>
  \<open>__init__\<close> (lines 80-123). The barrier of line 119 does nothing in one process; a
  store opened read-only must exist.
\<close>

definition init ::
  "('a video_features \<Rightarrow> string) \<Rightarrow> 'a env \<Rightarrow> string \<Rightarrow> int \<Rightarrow> int \<Rightarrow> int \<Rightarrow> modes \<Rightarrow> string \<Rightarrow> bool
     \<Rightarrow> error + ('a LFB \<times> 'a env)" where
  "init dumps ev prefix K W C dmodes dev construct_lmdb =
     (if \<not> path_exists ev prefix then Inl ValueError
      else
        (let self = \<lparr>lfb_prefix_path = prefix, max_num_sampled_feat = K, window_size = W,
                      lfb_channels = C,
                      dataset_modes = (case dmodes of ModeTuple ms \<Rightarrow> ms | ModeStr m \<Rightarrow> [m]),
                      device = dev, lfb = None, lfb_lmdb_path = None, lmdb_env = None\<rparr>
         in if dev = ''gpu'' then
              (case load_lfb ev self of Inl e \<Rightarrow> Inl e | Inr self' \<Rightarrow> Inr (self', ev))
            else if dev = ''cpu'' then
              (let ev' = (if world_size ev > 1 then ev\<lparr>warnings := Suc (warnings ev)\<rparr> else ev)
               in case load_lfb ev' self of Inl e \<Rightarrow> Inl e | Inr self' \<Rightarrow> Inr (self', ev'))
            else if dev = ''lmdb'' then
              (if \<not> lmdb_imported ev then Inl AssertionError
               else
                 (let path = normpath ev (osp_join prefix ''lmdb'');
                      self1 = self\<lparr>lfb_lmdb_path := Some path\<rparr>
                  in case (if rank ev = 0 \<and> construct_lmdb
                            then load_lfb_on_lmdb dumps ev self1 else Inr ev) of
                       Inl e \<Rightarrow> Inl e
                     | Inr ev1 \<Rightarrow>
                         (case lmdb_dirs ev1 path of
                            None \<Rightarrow> Inl LmdbError
                          | Some store \<Rightarrow> Inr (self1\<lparr>lmdb_env := Some store\<rparr>, ev1))))
            else Inl ValueError))"

subsection \<open>Tensors as objects\<close>

text \<open>
  The sampler once more, with the tensors as objects in a store, so that it can be said
  which object a block is. \<open>Stored v s\<close> is the tensor the in-memory bank holds for video
  \<open>v\<close> at second \<open>s\<close>, \<open>Loaded n s\<close> the tensor that the \<open>n\<close>-th \<open>torch.load\<close> of a
  record made for second \<open>s\<close>, \<open>Fresh n\<close> the \<open>n\<close>-th tensor made by \<open>torch.zeros\<close>.
\<close>

datatype addr = Stored string int | Loaded nat int | Fresh nat

record 'a mem =
  cells :: "addr \<rightharpoonup> 'a tensor"
  loads_done :: nat
  allocs :: nat

text \<open>
  Lines 154-159 on the store: the dict of the video, as references. The dict of an
  in-memory bank refers to the stored tensors; \<open>torch.load\<close> makes new ones.
\<close>

definition obj_get_video_features ::
  "(string \<Rightarrow> error + 'a video_features) \<Rightarrow> 'a LFB \<Rightarrow> 'a mem \<Rightarrow> string
     \<Rightarrow> error + ((int \<rightharpoonup> addr) \<times> 'a mem)" where
  "obj_get_video_features loads self m video_id =
     (case get_video_features loads self video_id of
        Inl e \<Rightarrow> Inl e
      | Inr vf \<Rightarrow>
          if device self = ''lmdb'' then
            Inr (\<lambda>s. map_option (\<lambda>_. Loaded (loads_done m) s) (vf s),
                 m\<lparr>cells := (\<lambda>a. case a of
                                   Loaded n s \<Rightarrow> if n = loads_done m then vf s else cells m a
                                 | _ \<Rightarrow> cells m a),
                   loads_done := Suc (loads_done m)\<rparr>)
          else Inr (\<lambda>s. map_option (\<lambda>_. Stored video_id s) (vf s), m))"

text \<open>
  Lines 175-176 on the store: the row is read from the object \<open>src\<close> and written into
  the object \<open>dst\<close>. A reference to no object cannot occur; it is RuntimeError here.
\<close>

fun obj_assign_rows ::
  "(dtype \<Rightarrow> dtype \<Rightarrow> 'a \<Rightarrow> 'a) \<Rightarrow> 'a LFB \<Rightarrow> 'a mem \<Rightarrow> addr \<Rightarrow> addr \<Rightarrow> nat \<Rightarrow> nat \<Rightarrow> nat list
     \<Rightarrow> error + 'a mem" where
  "obj_assign_rows cvt self m dst src idx k [] = Inr m"
| "obj_assign_rows cvt self m dst src idx k (rand_idx # rest) =
     (case cells m src of
        None \<Rightarrow> Inl RuntimeError
      | Some feats \<Rightarrow>
          (case tensor_getrow feats rand_idx of
             Inl e \<Rightarrow> Inl e
           | Inr row \<Rightarrow>
               (case cells m dst of
                  None \<Rightarrow> Inl RuntimeError
                | Some lt \<Rightarrow>
                    (case tensor_setrow cvt lt (int idx * max_num_sampled_feat self + int k)
                            (lfb_channels self) (t_dtype feats) row of
                       Inl e \<Rightarrow> Inl e
                     | Inr lt' \<Rightarrow>
                         obj_assign_rows cvt self (m\<lparr>cells := (cells m)(dst \<mapsto> lt')\<rparr>)
                           dst src idx (Suc k) rest))))"

fun obj_sample_loop ::
  "(dtype \<Rightarrow> dtype \<Rightarrow> 'a \<Rightarrow> 'a) \<Rightarrow> 'a LFB \<Rightarrow> (int \<rightharpoonup> addr) \<Rightarrow> 'a mem \<Rightarrow> addr \<Rightarrow> nat \<Rightarrow> int list \<Rightarrow> rng
     \<Rightarrow> error + ('a mem \<times> rng)" where
  "obj_sample_loop cvt self refs m dst idx [] g = Inr (m, g)"
| "obj_sample_loop cvt self refs m dst idx (sec # secs) g =
     (case refs sec of
        None \<Rightarrow> obj_sample_loop cvt self refs m dst (Suc idx) secs g
      | Some src \<Rightarrow>
          (case cells m src of
             None \<Rightarrow> Inl RuntimeError
           | Some feats \<Rightarrow>
               (case random_lfb_indices self feats g of
                  Inl e \<Rightarrow> Inl e
                | Inr (indices, g') \<Rightarrow>
                    (case obj_assign_rows cvt self m dst src idx 0 indices of
                       Inl e \<Rightarrow> Inl e
                     | Inr m' \<Rightarrow> obj_sample_loop cvt self refs m' dst (Suc idx) secs g'))))"

text \<open>
  \<open>sample_long_term_features\<close> on the store: \<open>torch.zeros\<close> makes a new object, the
  loop writes into it, and the method returns the reference to it.
\<close>

definition obj_sample_long_term_features ::
  "(dtype \<Rightarrow> dtype \<Rightarrow> 'a \<Rightarrow> 'a) \<Rightarrow> (string \<Rightarrow> error + 'a video_features) \<Rightarrow> 'a LFB \<Rightarrow> ('a::zero) mem
     \<Rightarrow> string \<Rightarrow> int \<Rightarrow> rng \<Rightarrow> error + (addr \<times> 'a mem \<times> rng)" where
  "obj_sample_long_term_features cvt loads self m video_id timestamp g =
     (case obj_get_video_features loads self m video_id of
        Inl e \<Rightarrow> Inl e
      | Inr (video_features, m1) \<Rightarrow>
          (let K = max_num_sampled_feat self;
               start = timestamp - (window_size self div 2)
           in case torch_zeros (window_size self * K) (lfb_channels self) of
                Inl e \<Rightarrow> Inl e
              | Inr zeros \<Rightarrow>
                  (let lt_feats = Fresh (allocs m1);
                       m2 = m1\<lparr>cells := (cells m1)(lt_feats \<mapsto> zeros), allocs := Suc (allocs m1)\<rparr>
                   in case obj_sample_loop cvt self video_features m2 lt_feats 0
                             (py_range start (start + window_size self)) g of
                        Inl e \<Rightarrow> Inl e
                      | Inr (m3, g') \<Rightarrow> Inr (lt_feats, m3, g'))))"

text \<open>
  The store of an object: it holds the tensors of the in-memory bank at their
  addresses, and the addresses that \<open>torch.load\<close> and \<open>torch.zeros\<close> will use next are
  not in use.
\<close>

definition bank_cells :: "'a bank \<Rightarrow> addr \<rightharpoonup> 'a tensor" where
  "bank_cells d a =
     (case a of
        Stored v s \<Rightarrow> (case map_of d v of None \<Rightarrow> None | Some vf \<Rightarrow> vf s)
      | _ \<Rightarrow> None)"

definition mem_ok :: "'a LFB \<Rightarrow> 'a mem \<Rightarrow> bool" where
  "mem_ok self m =
     ((\<forall>d v s. lfb self = Some d \<longrightarrow> cells m (Stored v s) = bank_cells d (Stored v s))
      \<and> (\<forall>n s. loads_done m \<le> n \<longrightarrow> cells m (Loaded n s) = None)
      \<and> (\<forall>n. allocs m \<le> n \<longrightarrow> cells m (Fresh n) = None))"

text \<open>The dict that a dict of references stands for.\<close>

definition deref :: "(int \<rightharpoonup> addr) \<Rightarrow> 'a mem \<Rightarrow> 'a video_features" where
  "deref refs m s = (case refs s of None \<Rightarrow> None | Some a \<Rightarrow> cells m a)"

subsection \<open>Notions used in the statements\<close>

text \<open>Every row of a stored tensor has \<open>c\<close> entries.\<close>

definition rows_have_width :: "int \<Rightarrow> 'a tensor \<Rightarrow> bool" where
  "rows_have_width c t = (\<forall>row \<in> set (t_rows t). int (length row) = c)"

text \<open>A row of zeros of the bank's width, and a stored row as it is copied into a block.\<close>

definition zero_row :: "'a LFB \<Rightarrow> ('a::zero) list" where
  "zero_row self = replicate (nat (lfb_channels self)) 0"

definition converted_row :: "(dtype \<Rightarrow> dtype \<Rightarrow> 'a \<Rightarrow> 'a) \<Rightarrow> 'a tensor \<Rightarrow> nat \<Rightarrow> 'a list" where
  "converted_row cvt feats r = map (cvt (t_dtype feats) Float32) (t_rows feats ! r)"

text \<open>
  A draw for one second: pairwise distinct indices into the features of that second, as
  many as the smaller of their number and \<open>max_num_sampled_feat\<close>.
\<close>

definition valid_draw :: "'a LFB \<Rightarrow> 'a tensor \<Rightarrow> nat list \<Rightarrow> bool" where
  "valid_draw self feats idxs =
     (distinct idxs \<and> (\<forall>r \<in> set idxs. r < length (t_rows feats))
      \<and> int (length idxs) = min (int (length (t_rows feats))) (max_num_sampled_feat self))"

text \<open>The rows of one second: the drawn rows in the order of the draw, then zero rows.\<close>

definition segment_of ::
  "(dtype \<Rightarrow> dtype \<Rightarrow> 'a \<Rightarrow> 'a) \<Rightarrow> 'a LFB \<Rightarrow> 'a tensor \<Rightarrow> nat list \<Rightarrow> ('a::zero) list list" where
  "segment_of cvt self feats idxs =
     map (converted_row cvt feats) idxs
       @ replicate (nat (max_num_sampled_feat self) - length idxs) (zero_row self)"

definition segment_ok ::
  "(dtype \<Rightarrow> dtype \<Rightarrow> 'a \<Rightarrow> 'a) \<Rightarrow> 'a LFB \<Rightarrow> 'a video_features \<Rightarrow> int \<Rightarrow> ('a::zero) list list \<Rightarrow> bool" where
  "segment_ok cvt self vf sec seg =
     (case vf sec of
        None \<Rightarrow> seg = replicate (nat (max_num_sampled_feat self)) (zero_row self)
      | Some feats \<Rightarrow> (\<exists>idxs. valid_draw self feats idxs \<and> seg = segment_of cvt self feats idxs))"

text \<open>
  A second has no features when it is not a key or its tensor has no rows; the seconds
  the sampler visits; the number of rows of offset \<open>i\<close> in a block that are not zero.
\<close>

definition no_features :: "'a video_features \<Rightarrow> int \<Rightarrow> bool" where
  "no_features vf sec = (case vf sec of None \<Rightarrow> True | Some feats \<Rightarrow> t_rows feats = [])"

definition window :: "'a LFB \<Rightarrow> int \<Rightarrow> int list" where
  "window self timestamp =
     py_range (timestamp - window_size self div 2)
       (timestamp - window_size self div 2 + window_size self)"

definition nonzero_rows :: "('a::zero) LFB \<Rightarrow> 'a tensor \<Rightarrow> nat \<Rightarrow> nat" where
  "nonzero_rows self blk i =
     length (filter (\<lambda>row. row \<noteq> zero_row self)
       (take (nat (max_num_sampled_feat self))
          (drop (i * nat (max_num_sampled_feat self)) (t_rows blk))))"

text \<open>
  The strings that denote an integer, as the Python reference gives them for \<open>int\<close>: an
  integer literal in base 10, which may be preceded by \<open>+\<close> or \<open>-\<close> (with no space in
  between), have leading zeros, be surrounded by whitespace, and have single underscores
  between digits. \<open>digit_tail\<close> is what may follow the first digit. The integer denoted
  is read off the digits and the sign.
\<close>

inductive digit_tail :: "string \<Rightarrow> bool" where
  tail_end: "digit_tail []"
| tail_digit: "is_digit d \<Longrightarrow> digit_tail s \<Longrightarrow> digit_tail (d # s)"
| tail_underscore: "is_digit d \<Longrightarrow> digit_tail s \<Longrightarrow> digit_tail (CHR ''_'' # d # s)"

definition digitpart :: "string \<Rightarrow> bool" where
  "digitpart s = (\<exists>d t. s = d # t \<and> is_digit d \<and> digit_tail t)"

definition int_literal :: "string \<Rightarrow> bool" where
  "int_literal s =
     (\<exists>a sn body b. s = a @ sn @ body @ b \<and> list_all is_space a \<and> list_all is_space b
        \<and> (sn = [] \<or> sn = ''+'' \<or> sn = ''-'') \<and> digitpart body)"

definition decimal_value :: "string \<Rightarrow> nat" where
  "decimal_value ds = foldl (\<lambda>a c. a * 10 + digit_val c) 0 ds"

definition literal_digits :: "string \<Rightarrow> nat" where
  "literal_digits s = length (filter is_digit s)"

definition literal_value :: "string \<Rightarrow> int" where
  "literal_value s =
     (if CHR ''-'' \<in> set s then - int (decimal_value (filter is_digit s))
      else int (decimal_value (filter is_digit s)))"

text \<open>The interpreter of the examples: no limit on the digits.\<close>

definition ex_interp :: interp where
  "ex_interp = \<lparr>max_str_digits = 0, int_non_ascii = (\<lambda>_. None)\<rparr>"

text \<open>Python's \<open>LookupError\<close>: KeyError and IndexError.\<close>

definition is_lookup_error :: "error \<Rightarrow> bool" where
  "is_lookup_error e = (e = KeyError \<or> e = IndexError)"

text \<open>
  The backend has the video, with the features \<open>vf\<close>: the dict of the in-memory
  backends maps the id to them; the lmdb store holds, under the encoded id, a buffer
  that \<open>torch.load\<close> reads back as them.
\<close>

definition backend_has ::
  "(string \<Rightarrow> error + 'a video_features) \<Rightarrow> 'a LFB \<Rightarrow> string \<Rightarrow> 'a video_features \<Rightarrow> bool" where
  "backend_has loads self video_id vf =
     (if device self = ''lmdb'' then
        (\<exists>txn buf. lmdb_env self = Some txn \<and> encode video_id \<noteq> []
           \<and> txn (encode video_id) = Some buf \<and> torch_load_buf loads buf = Inr vf)
      else (\<exists>d. lfb self = Some d \<and> map_of d video_id = Some vf))"

text \<open>
  The random source as one second leaves it, and as the seconds of a list leave it; the
  indices that \<open>np.random.choice\<close> returns at offset \<open>i\<close> of the window \<open>secs\<close>, that is,
  from the random source as the seconds before it left it.
\<close>

definition rng_step :: "'a LFB \<Rightarrow> 'a video_features \<Rightarrow> rng \<Rightarrow> int \<Rightarrow> rng" where
  "rng_step self vf g sec =
     (case vf sec of
        None \<Rightarrow> g
      | Some feats \<Rightarrow>
          (case random_lfb_indices self feats g of Inl e \<Rightarrow> g | Inr (idxs, g') \<Rightarrow> g'))"

definition rng_after :: "'a LFB \<Rightarrow> 'a video_features \<Rightarrow> int list \<Rightarrow> rng \<Rightarrow> rng" where
  "rng_after self vf secs g = foldl (rng_step self vf) g secs"

definition draw_at :: "'a LFB \<Rightarrow> 'a video_features \<Rightarrow> int list \<Rightarrow> rng \<Rightarrow> nat \<Rightarrow> nat list" where
  "draw_at self vf secs g i =
     (case vf (secs ! i) of
        None \<Rightarrow> []
      | Some feats \<Rightarrow>
          (case random_lfb_indices self feats (rng_after self vf (take i secs) g) of
             Inl e \<Rightarrow> []
           | Inr (idxs, g') \<Rightarrow> idxs))"

text \<open>The rows of offset \<open>i\<close>, as the spec lays them out (4.3, step 4).\<close>

definition expected_segment ::
  "(dtype \<Rightarrow> dtype \<Rightarrow> 'a \<Rightarrow> 'a) \<Rightarrow> 'a LFB \<Rightarrow> 'a video_features \<Rightarrow> int list \<Rightarrow> rng \<Rightarrow> nat
     \<Rightarrow> ('a::zero) list list" where
  "expected_segment cvt self vf secs g i =
     (case vf (secs ! i) of
        None \<Rightarrow> replicate (nat (max_num_sampled_feat self)) (zero_row self)
      | Some feats \<Rightarrow> segment_of cvt self feats (draw_at self vf secs g i))"

subsection \<open>Example banks\<close>

text \<open>
  One video with two features at second 10 and one at second 11, stored at half
  precision; a window of 4 seconds, at most 2 features a second, 3 channels.
\<close>

definition ex_features :: "int video_features" where
  "ex_features = [10 \<mapsto> \<lparr>t_dtype = Float16, t_rows = [[1, 1, 1], [2, 2, 2]]\<rparr>,
                  11 \<mapsto> \<lparr>t_dtype = Float16, t_rows = [[9, 9, 9]]\<rparr>]"

definition ex_lfb :: "int LFB" where
  "ex_lfb = \<lparr>lfb_prefix_path = ''data'', max_num_sampled_feat = 2, window_size = 4,
     lfb_channels = 3, dataset_modes = [''train''], device = ''cpu'',
     lfb = Some [(''vid42'', ex_features)], lfb_lmdb_path = None, lmdb_env = None\<rparr>"

text \<open>A bank whose only stored feature vector is the zero vector.\<close>

definition ex_zero_lfb :: "int LFB" where
  "ex_zero_lfb = \<lparr>lfb_prefix_path = ''data'', max_num_sampled_feat = 2, window_size = 1,
     lfb_channels = 3, dataset_modes = [''train''], device = ''cpu'',
     lfb = Some [(''vid0'', [10 \<mapsto> \<lparr>t_dtype = Float32, t_rows = [[0, 0, 0]]\<rparr>])],
     lfb_lmdb_path = None, lmdb_env = None\<rparr>"

text \<open>
  Two partitions \<open>A\<close> and \<open>B\<close> under \<open>data\<close> that both define the video \<open>x\<close>, and an
  object about to load them in this order.
\<close>

definition ex_features_A :: "int video_features" where
  "ex_features_A = [901 \<mapsto> \<lparr>t_dtype = Float16, t_rows = [[1, 1, 1]]\<rparr>]"

definition ex_features_B :: "int video_features" where
  "ex_features_B = [901 \<mapsto> \<lparr>t_dtype = Float16, t_rows = [[2, 2, 2]]\<rparr>]"

definition ex_env :: "int env" where
  "ex_env = \<lparr>path_exists = (\<lambda>p. p = ''data''),
     files = [''data/lfb_A.pkl'' \<mapsto> [(''x'', ex_features_A), (''y'', ex_features_A)],
              ''data/lfb_B.pkl'' \<mapsto> [(''x'', ex_features_B)]],
     lmdb_imported = True, rank = 0, world_size = 1, lmdb_dirs = Map.empty,
     normpath = (\<lambda>p. p), warnings = 0\<rparr>"

definition ex_unloaded :: "int LFB" where
  "ex_unloaded = \<lparr>lfb_prefix_path = ''data'', max_num_sampled_feat = 2, window_size = 4,
     lfb_channels = 3, dataset_modes = [''A'', ''B''], device = ''cpu'',
     lfb = None, lfb_lmdb_path = None, lmdb_env = None\<rparr>"

text \<open>An object on the lmdb backend whose store holds one video.\<close>

definition ex_lmdb_lfb :: "int LFB" where
  "ex_lmdb_lfb = \<lparr>lfb_prefix_path = ''data'', max_num_sampled_feat = 2, window_size = 4,
     lfb_channels = 3, dataset_modes = [''train''], device = ''lmdb'',
     lfb = None, lfb_lmdb_path = Some ''data/lmdb'', lmdb_env = Some [''vid42'' \<mapsto> ''blob'']\<rparr>"

text \<open>The store of the example bank before any query.\<close>

definition ex_mem :: "int mem" where
  "ex_mem = \<lparr>cells = bank_cells [(''vid42'', ex_features)], loads_done = 0, allocs = 0\<rparr>"

section \<open>Properties\<close>

subsection \<open>The random draw\<close>

lemma swap_mset: "i < length xs \<Longrightarrow> j < length xs \<Longrightarrow> mset (swap xs i j) = mset xs"
  unfolding swap_def by (simp add: mset_swap)

lemma swap_length: "length (swap xs i j) = length xs"
  by (simp add: swap_def)

lemma random_interval_le: "fst (random_interval g m) \<le> m"
  by (simp add: random_interval_def)

lemma shuffle_from_mset: "i < length xs \<Longrightarrow> mset (fst (shuffle_from i xs g)) = mset xs"
proof (induction i arbitrary: xs g)
  case 0
  then show ?case by simp
next
  case (Suc i)
  obtain j g' where r: "random_interval g (Suc i) = (j, g')"
    by (cases "random_interval g (Suc i)")
  have "j \<le> Suc i" using random_interval_le [of g "Suc i"] r by simp
  with Suc.prems have m: "mset (swap xs (Suc i) j) = mset xs" by (simp add: swap_mset)
  have "i < length (swap xs (Suc i) j)" using Suc.prems by (simp add: swap_length)
  from Suc.IH [OF this] m r show ?case by simp
qed

lemma permutation_mset: "mset (fst (permutation n g)) = mset [0..<n]"
proof (cases n)
  case 0
  then show ?thesis by (simp add: permutation_def)
next
  case (Suc m)
  then show ?thesis by (simp add: permutation_def shuffle_from_mset del: upt_Suc)
qed

lemma permutation_props:
  "distinct (fst (permutation n g))"
  "set (fst (permutation n g)) = {..<n}"
  "length (fst (permutation n g)) = n"
proof -
  note m = permutation_mset [of n g]
  have "distinct (fst (permutation n g)) = distinct [0..<n]"
    by (rule mset_eq_imp_distinct_iff [OF m])
  then show "distinct (fst (permutation n g))" by simp
  have "set (fst (permutation n g)) = set [0..<n]" by (rule mset_eq_setD [OF m])
  then show "set (fst (permutation n g)) = {..<n}" by (simp add: atLeast0LessThan)
  have "length (fst (permutation n g)) = length [0..<n]" by (rule mset_eq_length [OF m])
  then show "length (fst (permutation n g)) = n" by simp
qed

lemma np_random_choice_ok:
  assumes "0 \<le> sz" "sz \<le> pop"
  shows "\<exists>idxs g'. np_random_choice pop sz g = Inr (idxs, g') \<and> distinct idxs
           \<and> set idxs \<subseteq> {..<nat pop} \<and> length idxs = nat sz"
proof -
  obtain p g' where pg: "permutation (nat pop) g = (p, g')"
    by (cases "permutation (nat pop) g")
  have d: "distinct p" and s: "set p = {..<nat pop}" and l: "length p = nat pop"
    using permutation_props [of "nat pop" g] pg by simp_all
  have "np_random_choice pop sz g = Inr (take (nat sz) p, g')"
    using assms pg by (simp add: np_random_choice_def)
  moreover have "distinct (take (nat sz) p)" using d by simp
  moreover have "set (take (nat sz) p) \<subseteq> {..<nat pop}"
    using s set_take_subset [of "nat sz" p] by simp
  moreover have "length (take (nat sz) p) = nat sz" using l assms by simp
  ultimately show ?thesis by blast
qed

lemma random_lfb_indices_ok:
  assumes "0 \<le> max_num_sampled_feat self"
  shows "\<exists>idxs g'. random_lfb_indices self feats g = Inr (idxs, g') \<and> valid_draw self feats idxs"
proof -
  let ?f = "int (length (t_rows feats))"
  let ?n = "min ?f (max_num_sampled_feat self)"
  have "\<exists>idxs g'. np_random_choice ?f ?n g = Inr (idxs, g') \<and> distinct idxs
           \<and> set idxs \<subseteq> {..<nat ?f} \<and> length idxs = nat ?n"
    by (rule np_random_choice_ok) (use assms in simp_all)
  then obtain idxs g' where ch: "np_random_choice ?f ?n g = Inr (idxs, g')"
    and d: "distinct idxs" and sub: "set idxs \<subseteq> {..<nat ?f}" and len: "length idxs = nat ?n"
    by blast
  have "int (length idxs) = ?n" using len assms by simp
  then have "valid_draw self feats idxs" using d sub by (auto simp: valid_draw_def)
  moreover have "random_lfb_indices self feats g = Inr (idxs, g')"
    using ch by (simp add: random_lfb_indices_def Let_def)
  ultimately show ?thesis by blast
qed

subsection \<open>The sampled block\<close>

lemma assign_rows_append:
  assumes "t_rows lt = pre @ mid @ post"
    and "length pre = idx * Kn + k"
    and "length mid = length rs"
    and "max_num_sampled_feat self = int Kn"
    and "\<forall>r \<in> set rs. r < length (t_rows feats)"
    and "rows_have_width (lfb_channels self) feats"
  shows "assign_rows cvt self lt feats idx k rs =
           Inr (lt\<lparr>t_rows := pre @ map (\<lambda>r. map (cvt (t_dtype feats) (t_dtype lt)) (t_rows feats ! r)) rs @ post\<rparr>)"
  using assms
proof (induction rs arbitrary: lt pre mid k)
  case Nil
  then show ?case by simp
next
  case (Cons r rs)
  from Cons.prems(3) obtain m mid' where mid: "mid = m # mid'" and lm: "length mid' = length rs"
    by (cases mid) auto
  have rlt: "r < length (t_rows feats)" using Cons.prems(5) by simp
  then have g: "tensor_getrow feats r = Inr (t_rows feats ! r)" by (simp add: tensor_getrow_def)
  have w: "int (length (t_rows feats ! r)) = lfb_channels self"
    using Cons.prems(6) rlt by (simp add: rows_have_width_def)
  let ?v = "map (cvt (t_dtype feats) (t_dtype lt)) (t_rows feats ! r)"
  let ?lt' = "lt\<lparr>t_rows := (pre @ [?v]) @ mid' @ post\<rparr>"
  have ix: "int idx * max_num_sampled_feat self + int k = int (length pre)"
    using Cons.prems(2,4) by simp
  have upd: "(t_rows lt)[length pre := ?v] = (pre @ [?v]) @ mid' @ post"
    using Cons.prems(1) mid by simp
  have inr: "length pre < length (t_rows lt)" using Cons.prems(1) mid by simp
  have s: "tensor_setrow cvt lt (int idx * max_num_sampled_feat self + int k)
             (lfb_channels self) (t_dtype feats) (t_rows feats ! r) = Inr ?lt'"
    unfolding ix using w inr upd by (simp add: tensor_setrow_def Let_def)
  have ih: "assign_rows cvt self ?lt' feats idx (Suc k) rs =
           Inr (?lt'\<lparr>t_rows := (pre @ [?v]) @ map (\<lambda>r. map (cvt (t_dtype feats) (t_dtype ?lt')) (t_rows feats ! r)) rs @ post\<rparr>)"
    by (rule Cons.IH [where mid = mid']) (use Cons.prems lm in simp_all)
  show ?case using g s ih by simp
qed

lemma segment_ok_length:
  "0 \<le> max_num_sampled_feat self \<Longrightarrow> segment_ok cvt self vf sec seg
     \<Longrightarrow> length seg = nat (max_num_sampled_feat self)"
  by (auto simp: segment_ok_def segment_of_def valid_draw_def split: option.splits)

lemma sample_loop_segments:
  assumes "t_rows lt = pre @ replicate (length secs * Kn) (zero_row self)"
    and "length pre = idx * Kn"
    and "max_num_sampled_feat self = int Kn"
    and "t_dtype lt = Float32"
    and "\<forall>sec \<in> set secs. \<forall>feats. vf sec = Some feats \<longrightarrow> rows_have_width (lfb_channels self) feats"
  shows "\<exists>segs g'. sample_loop cvt self vf lt idx secs g = Inr (lt\<lparr>t_rows := pre @ concat segs\<rparr>, g')
           \<and> list_all2 (segment_ok cvt self vf) secs segs"
  using assms
proof (induction secs arbitrary: lt pre idx g)
  case Nil
  then show ?case by simp
next
  case (Cons sec secs)
  let ?z = "zero_row self"
  let ?rest = "replicate (length secs * Kn) ?z"
  have split: "replicate (length (sec # secs) * Kn) ?z = replicate Kn ?z @ ?rest"
    by (simp add: replicate_add)
  show ?case
  proof (cases "vf sec")
    case None
    have "\<exists>segs g'. sample_loop cvt self vf lt (Suc idx) secs g
              = Inr (lt\<lparr>t_rows := (pre @ replicate Kn ?z) @ concat segs\<rparr>, g')
           \<and> list_all2 (segment_ok cvt self vf) secs segs"
      by (rule Cons.IH) (use Cons.prems split in simp_all)
    then obtain segs g' where
      r: "sample_loop cvt self vf lt (Suc idx) secs g
              = Inr (lt\<lparr>t_rows := (pre @ replicate Kn ?z) @ concat segs\<rparr>, g')"
      and a: "list_all2 (segment_ok cvt self vf) secs segs" by blast
    have ok: "segment_ok cvt self vf sec (replicate Kn ?z)"
      using None Cons.prems(3) by (simp add: segment_ok_def)
    have "sample_loop cvt self vf lt idx (sec # secs) g
            = Inr (lt\<lparr>t_rows := pre @ concat (replicate Kn ?z # segs)\<rparr>, g')"
      using None r by simp
    moreover have "list_all2 (segment_ok cvt self vf) (sec # secs) (replicate Kn ?z # segs)"
      using ok a by simp
    ultimately show ?thesis by blast
  next
    case (Some feats)
    let ?f = "length (t_rows feats)"
    have w: "rows_have_width (lfb_channels self) feats" using Cons.prems(5) Some by simp
    have "0 \<le> max_num_sampled_feat self" using Cons.prems(3) by simp
    from random_lfb_indices_ok [OF this, of feats g] obtain idxs g1 where
      ch: "random_lfb_indices self feats g = Inr (idxs, g1)"
      and vd: "valid_draw self feats idxs" by blast
    have sub: "set idxs \<subseteq> {..<?f}" using vd by (auto simp: valid_draw_def)
    have "int (length idxs) \<le> int Kn" using vd Cons.prems(3) by (simp add: valid_draw_def)
    then have lenK: "length idxs \<le> Kn" by simp
    let ?written = "map (\<lambda>r. map (cvt (t_dtype feats) (t_dtype lt)) (t_rows feats ! r)) idxs"
    let ?pad = "replicate (Kn - length idxs) ?z"
    have rows: "t_rows lt = pre @ replicate (length idxs) ?z @ (?pad @ ?rest)"
      using Cons.prems(1) split lenK by (simp add: replicate_add [symmetric])
    have as: "assign_rows cvt self lt feats idx 0 idxs
                = Inr (lt\<lparr>t_rows := pre @ ?written @ (?pad @ ?rest)\<rparr>)"
      by (rule assign_rows_append [where mid = "replicate (length idxs) ?z" and Kn = Kn])
         (use rows Cons.prems(2,3) sub w in auto)
    let ?lt' = "lt\<lparr>t_rows := pre @ ?written @ (?pad @ ?rest)\<rparr>"
    have "\<exists>segs g'. sample_loop cvt self vf ?lt' (Suc idx) secs g1
              = Inr (?lt'\<lparr>t_rows := (pre @ ?written @ ?pad) @ concat segs\<rparr>, g')
           \<and> list_all2 (segment_ok cvt self vf) secs segs"
      by (rule Cons.IH) (use Cons.prems lenK in simp_all)
    then obtain segs g' where
      r: "sample_loop cvt self vf ?lt' (Suc idx) secs g1
              = Inr (?lt'\<lparr>t_rows := (pre @ ?written @ ?pad) @ concat segs\<rparr>, g')"
      and a: "list_all2 (segment_ok cvt self vf) secs segs" by blast
    have seg: "segment_of cvt self feats idxs = ?written @ ?pad"
      using Cons.prems(3,4) by (simp add: segment_of_def converted_row_def)
    have ok: "segment_ok cvt self vf sec (?written @ ?pad)"
      using Some vd seg by (auto simp: segment_ok_def)
    have "sample_loop cvt self vf lt idx (sec # secs) g
            = Inr (lt\<lparr>t_rows := pre @ concat ((?written @ ?pad) # segs)\<rparr>, g')"
      using Some ch as r by simp
    moreover have "list_all2 (segment_ok cvt self vf) (sec # secs) ((?written @ ?pad) # segs)"
      using ok a by simp
    ultimately show ?thesis by blast
  qed
qed

lemma take_drop_concat_uniform:
  "\<forall>s \<in> set segs. length s = n \<Longrightarrow> i < length segs \<Longrightarrow> take n (drop (i * n) (concat segs)) = segs ! i"
proof (induction segs arbitrary: i)
  case Nil
  then show ?case by simp
next
  case (Cons s segs)
  show ?case
  proof (cases i)
    case 0
    then show ?thesis using Cons.prems by simp
  next
    case (Suc j)
    have "take n (drop (j * n) (concat segs)) = segs ! j"
      by (rule Cons.IH) (use Cons.prems Suc in simp_all)
    then show ?thesis using Cons.prems Suc by simp
  qed
qed

lemma length_concat_uniform:
  "\<forall>s \<in> set segs. length s = n \<Longrightarrow> length (concat segs) = length segs * n"
  by (induction segs) simp_all

lemma py_range_conv: "0 \<le> w \<Longrightarrow> py_range a (a + w) = map (\<lambda>i. a + int i) [0..<nat w]"
proof -
  have "[a..a + int n - 1] = map (\<lambda>i. a + int i) [0..<n]" for n
  proof (induction n)
    case 0
    then show ?case by simp
  next
    case (Suc n)
    have "[a..a + int (Suc n) - 1] = [a..a + int n - 1] @ [a + int n]"
      using upto_rec2 [of a "a + int n"] by simp
    then show ?case using Suc by simp
  qed
  from this [of "nat w"] show "0 \<le> w \<Longrightarrow> py_range a (a + w) = map (\<lambda>i. a + int i) [0..<nat w]"
    by (simp add: py_range_def)
qed

lemma segment_ok_width:
  assumes "segment_ok cvt self vf sec seg"
    and "\<forall>feats. vf sec = Some feats \<longrightarrow> rows_have_width (lfb_channels self) feats"
    and "0 \<le> lfb_channels self"
  shows "\<forall>row \<in> set seg. length row = nat (lfb_channels self)"
proof (cases "vf sec")
  case None
  then show ?thesis using assms(1) by (simp add: segment_ok_def zero_row_def)
next
  case (Some feats)
  with assms(1) obtain idxs where v: "valid_draw self feats idxs"
    and seg: "seg = segment_of cvt self feats idxs" by (auto simp: segment_ok_def)
  have w: "rows_have_width (lfb_channels self) feats" using assms(2) Some by simp
  have "length (converted_row cvt feats r) = nat (lfb_channels self)" if "r \<in> set idxs" for r
  proof -
    have "r < length (t_rows feats)" using v that by (simp add: valid_draw_def)
    then have "int (length (t_rows feats ! r)) = lfb_channels self"
      using w by (simp add: rows_have_width_def)
    then show ?thesis by (simp add: converted_row_def)
  qed
  then show ?thesis unfolding seg segment_of_def by (auto simp: zero_row_def)
qed

lemma sample_long_term_features_segments:
  assumes "get_video_features loads self video_id = Inr vf"
    and "0 \<le> window_size self" and "0 \<le> max_num_sampled_feat self" and "0 \<le> lfb_channels self"
    and "start = timestamp - window_size self div 2"
    and "\<forall>sec \<in> set (py_range start (start + window_size self)).
           \<forall>feats. vf sec = Some feats \<longrightarrow> rows_have_width (lfb_channels self) feats"
  shows "\<exists>segs g'. sample_long_term_features cvt loads self video_id timestamp g
             = Inr (\<lparr>t_dtype = Float32, t_rows = concat segs\<rparr>, g')
           \<and> list_all2 (segment_ok cvt self vf) (py_range start (start + window_size self)) segs"
proof -
  let ?K = "max_num_sampled_feat self"
  let ?secs = "py_range start (start + window_size self)"
  let ?lt = "\<lparr>t_dtype = Float32, t_rows = replicate (nat (window_size self * ?K)) (zero_row self)\<rparr>"
  have len: "length ?secs = nat (window_size self)"
    using assms(2) by (simp add: py_range_conv)
  have nn: "0 \<le> window_size self * ?K" using assms(2,3) by simp
  have z: "torch_zeros (window_size self * ?K) (lfb_channels self) = Inr ?lt"
    using nn assms(4) by (simp add: torch_zeros_def zero_row_def not_less)
  have "\<exists>segs g'. sample_loop cvt self vf ?lt 0 ?secs g = Inr (?lt\<lparr>t_rows := [] @ concat segs\<rparr>, g')
           \<and> list_all2 (segment_ok cvt self vf) ?secs segs"
    by (rule sample_loop_segments [where Kn = "nat ?K"])
       (use assms len in \<open>simp_all add: nat_mult_distrib\<close>)
  then show ?thesis
    using assms(1,5) z by (simp add: sample_long_term_features_def Let_def)
qed

lemma concat_nth_uniform:
  "\<forall>s \<in> set segs. length s = n \<Longrightarrow> i < length segs \<Longrightarrow> k < n \<Longrightarrow> concat segs ! (i * n + k) = segs ! i ! k"
proof (induction segs arbitrary: i)
  case Nil
  then show ?case by simp
next
  case (Cons s segs)
  show ?case
  proof (cases i)
    case 0
    then show ?thesis using Cons.prems by (simp add: nth_append)
  next
    case (Suc j)
    have "concat segs ! (j * n + k) = segs ! j ! k"
      by (rule Cons.IH) (use Cons.prems Suc in simp_all)
    moreover have "(s @ concat segs) ! (length s + (j * n + k)) = concat segs ! (j * n + k)"
      by (rule nth_append_length_plus)
    ultimately show ?thesis using Cons.prems Suc by (simp add: add.assoc)
  qed
qed

lemma backend_has_lookup:
  "backend_has loads self video_id vf \<Longrightarrow> get_video_features loads self video_id = Inr vf"
  by (auto simp: backend_has_def get_video_features_def txn_get_def bytes_io_def split: if_splits)

lemma rng_after_take_Suc:
  "rng_after self vf (take (Suc j) (sec # secs)) g
     = rng_after self vf (take j secs) (rng_step self vf g sec)"
  by (simp add: rng_after_def)

lemma draw_at_Suc:
  "draw_at self vf (sec # secs) g (Suc j) = draw_at self vf secs (rng_step self vf g sec) j"
  unfolding draw_at_def rng_after_take_Suc nth_Cons_Suc ..

lemma expected_segment_Suc:
  "expected_segment cvt self vf (sec # secs) g (Suc j)
     = expected_segment cvt self vf secs (rng_step self vf g sec) j"
  unfolding expected_segment_def draw_at_Suc by simp

lemma expected_segments_Cons:
  "map (expected_segment cvt self vf (sec # secs) g) [0..<Suc n]
     = expected_segment cvt self vf (sec # secs) g 0
         # map (expected_segment cvt self vf secs (rng_step self vf g sec)) [0..<n]"
proof -
  have "map (expected_segment cvt self vf (sec # secs) g) [0..<Suc n]
          = expected_segment cvt self vf (sec # secs) g 0
              # map (\<lambda>j. expected_segment cvt self vf (sec # secs) g (Suc j)) [0..<n]"
    by (simp only: map_upt_Suc)
  then show ?thesis by (simp only: expected_segment_Suc)
qed

lemma draw_at_valid:
  assumes "0 \<le> max_num_sampled_feat self" and "vf (secs ! i) = Some feats"
  shows "valid_draw self feats (draw_at self vf secs g i)"
proof -
  from random_lfb_indices_ok [OF assms(1), of feats "rng_after self vf (take i secs) g"]
  obtain idxs g' where
    "random_lfb_indices self feats (rng_after self vf (take i secs) g) = Inr (idxs, g')"
    and "valid_draw self feats idxs" by blast
  then show ?thesis using assms(2) by (simp add: draw_at_def)
qed

lemma sample_loop_draws:
  assumes "t_rows lt = pre @ replicate (length secs * Kn) (zero_row self)"
    and "length pre = idx * Kn"
    and "max_num_sampled_feat self = int Kn"
    and "t_dtype lt = Float32"
    and "\<forall>sec \<in> set secs. \<forall>feats. vf sec = Some feats \<longrightarrow> rows_have_width (lfb_channels self) feats"
  shows "sample_loop cvt self vf lt idx secs g
           = Inr (lt\<lparr>t_rows := pre @ concat (map (expected_segment cvt self vf secs g) [0..<length secs])\<rparr>,
                  rng_after self vf secs g)"
  using assms
proof (induction secs arbitrary: lt pre idx g)
  case Nil
  then show ?case by (simp add: rng_after_def)
next
  case (Cons sec secs)
  let ?z = "zero_row self"
  let ?rest = "replicate (length secs * Kn) ?z"
  let ?g1 = "rng_step self vf g sec"
  have split: "replicate (length (sec # secs) * Kn) ?z = replicate Kn ?z @ ?rest"
    by (simp add: replicate_add)
  have after: "rng_after self vf (sec # secs) g = rng_after self vf secs ?g1"
    by (simp add: rng_after_def)
  have segs: "map (expected_segment cvt self vf (sec # secs) g) [0..<length (sec # secs)]
     = expected_segment cvt self vf (sec # secs) g 0
         # map (expected_segment cvt self vf secs ?g1) [0..<length secs]"
    using expected_segments_Cons [of cvt self vf sec secs g "length secs"] by simp
  show ?case
  proof (cases "vf sec")
    case None
    have g1: "?g1 = g" using None by (simp add: rng_step_def)
    have e0: "expected_segment cvt self vf (sec # secs) g 0 = replicate Kn ?z"
      using None Cons.prems(3) by (simp add: expected_segment_def)
    have "sample_loop cvt self vf lt (Suc idx) secs g
            = Inr (lt\<lparr>t_rows := (pre @ replicate Kn ?z)
                       @ concat (map (expected_segment cvt self vf secs g) [0..<length secs])\<rparr>,
                   rng_after self vf secs g)"
      by (rule Cons.IH) (use Cons.prems split in simp_all)
    then show ?thesis
      unfolding segs after g1 e0 using None by simp
  next
    case (Some feats)
    let ?f = "length (t_rows feats)"
    have w: "rows_have_width (lfb_channels self) feats" using Cons.prems(5) Some by simp
    have "0 \<le> max_num_sampled_feat self" using Cons.prems(3) by simp
    from random_lfb_indices_ok [OF this, of feats g] obtain idxs g1 where
      ch: "random_lfb_indices self feats g = Inr (idxs, g1)"
      and vd: "valid_draw self feats idxs" by blast
    have g1: "?g1 = g1" using Some ch by (simp add: rng_step_def)
    have d0: "draw_at self vf (sec # secs) g 0 = idxs"
      using Some ch by (simp add: draw_at_def rng_after_def)
    have sub: "set idxs \<subseteq> {..<?f}" using vd by (auto simp: valid_draw_def)
    have "int (length idxs) \<le> int Kn" using vd Cons.prems(3) by (simp add: valid_draw_def)
    then have lenK: "length idxs \<le> Kn" by simp
    let ?written = "map (\<lambda>r. map (cvt (t_dtype feats) (t_dtype lt)) (t_rows feats ! r)) idxs"
    let ?pad = "replicate (Kn - length idxs) ?z"
    have rows: "t_rows lt = pre @ replicate (length idxs) ?z @ (?pad @ ?rest)"
      using Cons.prems(1) split lenK by (simp add: replicate_add [symmetric])
    have as: "assign_rows cvt self lt feats idx 0 idxs
                = Inr (lt\<lparr>t_rows := pre @ ?written @ (?pad @ ?rest)\<rparr>)"
      by (rule assign_rows_append [where mid = "replicate (length idxs) ?z" and Kn = Kn])
         (use rows Cons.prems(2,3) sub w in auto)
    let ?lt' = "lt\<lparr>t_rows := pre @ ?written @ (?pad @ ?rest)\<rparr>"
    have ih: "sample_loop cvt self vf ?lt' (Suc idx) secs g1
              = Inr (?lt'\<lparr>t_rows := (pre @ ?written @ ?pad)
                         @ concat (map (expected_segment cvt self vf secs g1) [0..<length secs])\<rparr>,
                     rng_after self vf secs g1)"
      by (rule Cons.IH) (use Cons.prems lenK in simp_all)
    have e0: "expected_segment cvt self vf (sec # secs) g 0 = ?written @ ?pad"
      using Some d0 Cons.prems(3,4) by (simp add: expected_segment_def segment_of_def converted_row_def)
    show ?thesis
      unfolding segs after g1 e0 using Some ch as ih by simp
  qed
qed

lemma sample_long_term_features_rows:
  assumes "get_video_features loads self video_id = Inr vf"
    and "0 \<le> window_size self" and "0 \<le> max_num_sampled_feat self" and "0 \<le> lfb_channels self"
    and "start = timestamp - window_size self div 2"
    and "\<forall>sec \<in> set (window self timestamp).
           \<forall>feats. vf sec = Some feats \<longrightarrow> rows_have_width (lfb_channels self) feats"
  shows "\<exists>blk. sample_long_term_features cvt loads self video_id timestamp g
               = Inr (blk, rng_after self vf (window self timestamp) g)
      \<and> length (t_rows blk) = nat (window_size self) * nat (max_num_sampled_feat self)
      \<and> (\<forall>row \<in> set (t_rows blk). length row = nat (lfb_channels self))
      \<and> (\<forall>i < nat (window_size self).
            case vf (start + int i) of
              None \<Rightarrow>
                (\<forall>k < nat (max_num_sampled_feat self).
                   t_rows blk ! (i * nat (max_num_sampled_feat self) + k) = zero_row self)
            | Some feats \<Rightarrow>
                valid_draw self feats (draw_at self vf (window self timestamp) g i)
                \<and> (\<forall>k < length (draw_at self vf (window self timestamp) g i).
                      t_rows blk ! (i * nat (max_num_sampled_feat self) + k)
                        = converted_row cvt feats (draw_at self vf (window self timestamp) g i ! k))
                \<and> (\<forall>k. length (draw_at self vf (window self timestamp) g i) \<le> k
                        \<and> k < nat (max_num_sampled_feat self) \<longrightarrow>
                      t_rows blk ! (i * nat (max_num_sampled_feat self) + k) = zero_row self))"
proof -
  let ?Kn = "nat (max_num_sampled_feat self)"
  let ?W = "nat (window_size self)"
  let ?secs = "window self timestamp"
  let ?seg = "expected_segment cvt self vf ?secs g"
  let ?segs = "map ?seg [0..<?W]"
  let ?blk = "\<lparr>t_dtype = Float32, t_rows = concat ?segs\<rparr>"
  let ?lt = "\<lparr>t_dtype = Float32, t_rows = replicate (nat (window_size self * max_num_sampled_feat self))
               (zero_row self)\<rparr>"
  have secs: "?secs = map (\<lambda>i. start + int i) [0..<?W]"
    unfolding window_def assms(5) [symmetric] using assms(2) by (rule py_range_conv)
  have len: "length ?secs = ?W" using secs by simp
  have nth_sec: "?secs ! i = start + int i" if "i < ?W" for i using secs that by simp
  note lookup = assms(1)
  have nn: "0 \<le> window_size self * max_num_sampled_feat self" using assms(2,3) by simp
  have z: "torch_zeros (window_size self * max_num_sampled_feat self) (lfb_channels self) = Inr ?lt"
    using nn assms(4) by (simp add: torch_zeros_def zero_row_def not_less)
  have loop: "sample_loop cvt self vf ?lt 0 ?secs g
           = Inr (?lt\<lparr>t_rows := [] @ concat (map ?seg [0..<length ?secs])\<rparr>, rng_after self vf ?secs g)"
    by (rule sample_loop_draws [where Kn = ?Kn])
       (use assms(2,3,6) len in \<open>simp_all add: nat_mult_distrib\<close>)
  have r: "sample_long_term_features cvt loads self video_id timestamp g
             = Inr (?blk, rng_after self vf ?secs g)"
    using lookup z loop len
    by (simp add: sample_long_term_features_def Let_def window_def)
  have draw: "valid_draw self feats (draw_at self vf ?secs g i)"
    if "i < ?W" "vf (start + int i) = Some feats" for i feats
    by (rule draw_at_valid [OF assms(3)]) (use that nth_sec in simp)
  have seg_ok: "segment_ok cvt self vf (start + int i) (?seg i)" if "i < ?W" for i
  proof (cases "vf (start + int i)")
    case None
    then show ?thesis using nth_sec [OF that] by (simp add: segment_ok_def expected_segment_def)
  next
    case (Some feats)
    then show ?thesis
      using nth_sec [OF that] draw [OF that Some]
      by (auto simp: segment_ok_def expected_segment_def)
  qed
  have lseg: "\<forall>s \<in> set ?segs. length s = ?Kn"
  proof
    fix s assume "s \<in> set ?segs"
    then obtain i where i: "i < ?W" and s: "s = ?seg i" by auto
    show "length s = ?Kn" unfolding s by (rule segment_ok_length [OF assms(3) seg_ok [OF i]])
  qed
  have width: "\<forall>row \<in> set (t_rows ?blk). length row = nat (lfb_channels self)"
  proof
    fix row assume "row \<in> set (t_rows ?blk)"
    then obtain i where i: "i < ?W" and rs: "row \<in> set (?seg i)" by auto
    have sec: "start + int i \<in> set ?secs" using i secs by simp
    have "\<forall>row \<in> set (?seg i). length row = nat (lfb_channels self)"
      by (rule segment_ok_width [OF seg_ok [OF i]]) (use assms(4,6) sec in auto)
    then show "length row = nat (lfb_channels self)" using rs by simp
  qed
  have nth: "t_rows ?blk ! (i * ?Kn + k) = ?seg i ! k" if "i < ?W" "k < ?Kn" for i k
    using concat_nth_uniform [OF lseg, of i k] that by simp
  have seg: "case vf (start + int i) of
              None \<Rightarrow> (\<forall>k < ?Kn. t_rows ?blk ! (i * ?Kn + k) = zero_row self)
            | Some feats \<Rightarrow>
                valid_draw self feats (draw_at self vf ?secs g i)
                \<and> (\<forall>k < length (draw_at self vf ?secs g i).
                      t_rows ?blk ! (i * ?Kn + k) = converted_row cvt feats (draw_at self vf ?secs g i ! k))
                \<and> (\<forall>k. length (draw_at self vf ?secs g i) \<le> k \<and> k < ?Kn \<longrightarrow>
                      t_rows ?blk ! (i * ?Kn + k) = zero_row self)"
    if i: "i < ?W" for i
  proof (cases "vf (start + int i)")
    case None
    then have "?seg i = replicate ?Kn (zero_row self)"
      using nth_sec [OF i] by (simp add: expected_segment_def)
    then show ?thesis using None nth [OF i] by simp
  next
    case (Some feats)
    let ?d = "draw_at self vf ?secs g i"
    have s: "?seg i = segment_of cvt self feats ?d"
      using Some nth_sec [OF i] by (simp add: expected_segment_def)
    note v = draw [OF i Some]
    have "int (length ?d) \<le> max_num_sampled_feat self" using v by (simp add: valid_draw_def)
    then have le: "length ?d \<le> ?Kn" by linarith
    have a1: "t_rows ?blk ! (i * ?Kn + k) = converted_row cvt feats (?d ! k)" if "k < length ?d" for k
      using nth [OF i, of k] that le s by (simp add: segment_of_def nth_append)
    have a2: "t_rows ?blk ! (i * ?Kn + k) = zero_row self" if "length ?d \<le> k" "k < ?Kn" for k
      using nth [OF i, of k] that s by (simp add: segment_of_def nth_append)
    show ?thesis using Some v a1 a2 by auto
  qed
  have lenb: "length (t_rows ?blk) = ?W * ?Kn"
    using length_concat_uniform [OF lseg] by simp
  show ?thesis
    unfolding r using lenb width seg by blast
qed

text \<open>
  C1. Let the backend have the video, with features \<open>vf\<close>, let the sizes be
  non-negative and the stored rows of the window have \<open>lfb_channels\<close> entries. Then the
  sampler returns a block of \<open>window_size * max_num_sampled_feat\<close> rows of
  \<open>lfb_channels\<close> entries. With \<open>start = timestamp - window_size div 2\<close>, the rows of
  offset \<open>i\<close> are all zero when \<open>start + i\<close> is not a key of \<open>vf\<close>. When it is a key,
  with \<open>f\<close> features, the indices that \<open>np.random.choice\<close> returns there are pairwise
  distinct indices of these features, \<open>min f max_num_sampled_feat\<close> many; row
  \<open>i * max_num_sampled_feat + k\<close> is the feature vector at the \<open>k\<close>-th of them, in the
  order in which they were drawn, and the remaining rows of the offset are zero. The
  random source is left as the draws of the window leave it.
\<close>

theorem sample_long_term_features_layout:
  assumes "backend_has loads self video_id vf"
    and "0 \<le> window_size self" and "0 \<le> max_num_sampled_feat self" and "0 \<le> lfb_channels self"
    and "start = timestamp - window_size self div 2"
    and "\<forall>sec \<in> set (window self timestamp).
           \<forall>feats. vf sec = Some feats \<longrightarrow> rows_have_width (lfb_channels self) feats"
  shows "\<exists>blk. sample_long_term_features cvt loads self video_id timestamp g
               = Inr (blk, rng_after self vf (window self timestamp) g)
      \<and> length (t_rows blk) = nat (window_size self) * nat (max_num_sampled_feat self)
      \<and> (\<forall>row \<in> set (t_rows blk). length row = nat (lfb_channels self))
      \<and> (\<forall>i < nat (window_size self).
            case vf (start + int i) of
              None \<Rightarrow>
                (\<forall>k < nat (max_num_sampled_feat self).
                   t_rows blk ! (i * nat (max_num_sampled_feat self) + k) = zero_row self)
            | Some feats \<Rightarrow>
                valid_draw self feats (draw_at self vf (window self timestamp) g i)
                \<and> (\<forall>k < length (draw_at self vf (window self timestamp) g i).
                      t_rows blk ! (i * nat (max_num_sampled_feat self) + k)
                        = converted_row cvt feats (draw_at self vf (window self timestamp) g i ! k))
                \<and> (\<forall>k. length (draw_at self vf (window self timestamp) g i) \<le> k
                        \<and> k < nat (max_num_sampled_feat self) \<longrightarrow>
                      t_rows blk ! (i * nat (max_num_sampled_feat self) + k) = zero_row self))"
  using sample_long_term_features_rows [OF backend_has_lookup [OF assms(1)] assms(2-6), of cvt g]
  by blast

theorem sample_long_term_features_layout_witness:
  "\<exists>blk g'. sample_long_term_features (\<lambda>_ _ x. x) (\<lambda>_. Inl EOFError) ex_lfb ''vid42'' 11 (siterate Suc 0)
       = Inr (blk, g')
     \<and> length (t_rows blk) = 8
     \<and> t_rows blk ! 0 = [0, 0, 0] \<and> t_rows blk ! 1 = [0, 0, 0]
     \<and> t_rows blk ! 2 = [2, 2, 2] \<and> t_rows blk ! 3 = [1, 1, 1]
     \<and> t_rows blk ! 4 = [9, 9, 9] \<and> t_rows blk ! 5 = [0, 0, 0]
     \<and> t_rows blk ! 6 = [0, 0, 0] \<and> t_rows blk ! 7 = [0, 0, 0]"
proof -
  let ?g = "siterate Suc 0"
  let ?f10 = "\<lparr>t_dtype = Float16, t_rows = [[1, 1, 1], [2, 2, 2::int]]\<rparr>"
  let ?f11 = "\<lparr>t_dtype = Float16, t_rows = [[9, 9, 9::int]]\<rparr>"
  have h1: "backend_has (\<lambda>_. Inl EOFError) ex_lfb ''vid42'' ex_features"
    by (simp add: backend_has_def ex_lfb_def)
  have h2: "0 \<le> window_size ex_lfb" "0 \<le> max_num_sampled_feat ex_lfb" "0 \<le> lfb_channels ex_lfb"
    by (simp_all add: ex_lfb_def)
  have h3: "(9::int) = 11 - window_size ex_lfb div 2" by (simp add: ex_lfb_def)
  have w: "window ex_lfb 11 = [9, 10, 11, 12]"
    by (simp add: window_def py_range_def upto_rec_numeral ex_lfb_def)
  have h4: "\<forall>sec \<in> set (window ex_lfb 11).
           \<forall>feats. ex_features sec = Some feats \<longrightarrow> rows_have_width (lfb_channels ex_lfb) feats"
    unfolding w by (simp add: ex_lfb_def ex_features_def rows_have_width_def)
  have K: "nat (max_num_sampled_feat ex_lfb) = 2" and W: "nat (window_size ex_lfb) = 4"
    by (simp_all add: ex_lfb_def)
  have z: "zero_row ex_lfb = [0, 0, 0]" by (simp add: zero_row_def ex_lfb_def eval_nat_numeral)
  have c10: "random_lfb_indices ex_lfb ?f10 ?g = Inr ([1, 0], siterate Suc 1)"
    by (simp add: random_lfb_indices_def np_random_choice_def permutation_def random_interval_def
          swap_def ex_lfb_def Let_def upt_rec)
  have c11: "random_lfb_indices ex_lfb ?f11 (siterate Suc 1) = Inr ([0], siterate Suc 1)"
    by (simp add: random_lfb_indices_def np_random_choice_def permutation_def ex_lfb_def Let_def)
  have e: "ex_features 9 = None" "ex_features 10 = Some ?f10" "ex_features 11 = Some ?f11"
    by (simp_all add: ex_features_def)
  have d1: "draw_at ex_lfb ex_features [9, 10, 11, 12] ?g (Suc 0) = [1, 0]"
    using c10 by (simp add: draw_at_def rng_after_def rng_step_def e)
  have d2: "draw_at ex_lfb ex_features [9, 10, 11, 12] ?g 2 = [0]"
    using c10 c11
    by (simp add: draw_at_def rng_after_def rng_step_def e eval_nat_numeral)
  from sample_long_term_features_layout [OF h1 h2 h3 h4, of "\<lambda>_ _ x. x" ?g]
  obtain blk where
    r: "sample_long_term_features (\<lambda>_ _ x. x) (\<lambda>_. Inl EOFError) ex_lfb ''vid42'' 11 ?g
       = Inr (blk, rng_after ex_lfb ex_features (window ex_lfb 11) ?g)"
    and l: "length (t_rows blk) = nat (window_size ex_lfb) * nat (max_num_sampled_feat ex_lfb)"
    and s: "\<forall>i < nat (window_size ex_lfb).
            case ex_features (9 + int i) of
              None \<Rightarrow>
                (\<forall>k < nat (max_num_sampled_feat ex_lfb).
                   t_rows blk ! (i * nat (max_num_sampled_feat ex_lfb) + k) = zero_row ex_lfb)
            | Some feats \<Rightarrow>
                valid_draw ex_lfb feats (draw_at ex_lfb ex_features (window ex_lfb 11) ?g i)
                \<and> (\<forall>k < length (draw_at ex_lfb ex_features (window ex_lfb 11) ?g i).
                      t_rows blk ! (i * nat (max_num_sampled_feat ex_lfb) + k)
                        = converted_row (\<lambda>_ _ x. x) feats
                            (draw_at ex_lfb ex_features (window ex_lfb 11) ?g i ! k))
                \<and> (\<forall>k. length (draw_at ex_lfb ex_features (window ex_lfb 11) ?g i) \<le> k
                        \<and> k < nat (max_num_sampled_feat ex_lfb) \<longrightarrow>
                      t_rows blk ! (i * nat (max_num_sampled_feat ex_lfb) + k) = zero_row ex_lfb)"
    by blast
  have l8: "length (t_rows blk) = 8" using l by (simp add: K W)
  have f9: "ex_features 9 = None" and f10: "ex_features 10 = Some ?f10"
    and f11: "ex_features 11 = Some ?f11" and f12: "ex_features 12 = None"
    by (simp_all add: ex_features_def)
  from s [rule_format, of 0] have s0: "\<forall>k < 2. t_rows blk ! k = [0, 0, 0]"
    by (simp add: f9 K W z)
  from s [rule_format, of 1] have
    s1: "\<forall>k < 2. t_rows blk ! (2 + k) = converted_row (\<lambda>_ _ x. x) ?f10 ([1, 0] ! k)"
    by (simp add: f10 K W w d1)
  from s [rule_format, of 2] have
    s2a: "\<forall>k < 1. t_rows blk ! (4 + k) = converted_row (\<lambda>_ _ x. x) ?f11 ([0] ! k)"
    and s2b: "\<forall>k. 1 \<le> k \<and> k < 2 \<longrightarrow> t_rows blk ! (4 + k) = [0, 0, 0]"
    by (simp_all add: f11 K W w d2 z)
  from s [rule_format, of 3] have s3: "\<forall>k < 2. t_rows blk ! (6 + k) = [0, 0, 0]"
    by (simp add: f12 K W z)
  have r0: "t_rows blk ! 0 = [0, 0, 0]" and r1: "t_rows blk ! 1 = [0, 0, 0]"
    using s0 [rule_format, of 0] s0 [rule_format, of 1] by simp_all
  have r2: "t_rows blk ! 2 = [2, 2, 2]" and r3: "t_rows blk ! 3 = [1, 1, 1]"
    using s1 [rule_format, of 0] s1 [rule_format, of 1] by (simp_all add: converted_row_def)
  have r4: "t_rows blk ! 4 = [9, 9, 9]" and r5: "t_rows blk ! 5 = [0, 0, 0]"
    using s2a [rule_format, of 0] s2b [rule_format, of 1] by (simp_all add: converted_row_def)
  have r6: "t_rows blk ! 6 = [0, 0, 0]" and r7: "t_rows blk ! 7 = [0, 0, 0]"
    using s3 [rule_format, of 0] s3 [rule_format, of 1] by simp_all
  from r l8 r0 r1 r2 r3 r4 r5 r6 r7 show ?thesis by blast
qed

subsection \<open>Zero fill\<close>

lemma random_lfb_indices_empty:
  assumes "t_rows feats = []" and "0 \<le> max_num_sampled_feat self"
  shows "random_lfb_indices self feats g = Inr ([], g)"
  using assms by (simp add: random_lfb_indices_def np_random_choice_def permutation_def)

lemma sample_loop_no_features:
  assumes "\<forall>sec \<in> set secs. no_features vf sec" and "0 \<le> max_num_sampled_feat self"
  shows "sample_loop cvt self vf lt idx secs g = Inr (lt, g)"
  using assms(1)
proof (induction secs arbitrary: idx)
  case Nil
  then show ?case by simp
next
  case (Cons sec secs)
  then have ih: "sample_loop cvt self vf lt (Suc idx) secs g = Inr (lt, g)" by simp
  show ?case
  proof (cases "vf sec")
    case None
    then show ?thesis using ih by simp
  next
    case (Some feats)
    then have "t_rows feats = []" using Cons.prems by (simp add: no_features_def)
    then have "random_lfb_indices self feats g = Inr ([], g)"
      using assms(2) by (rule random_lfb_indices_empty)
    then show ?thesis using Some ih by simp
  qed
qed

text \<open>
  C2. For a video the backend has and non-negative sizes, when no second of the window
  \<open>[timestamp - window_size div 2, timestamp - window_size div 2 + window_size)\<close> has a
  feature, the sampler returns the block of \<open>window_size * max_num_sampled_feat\<close> rows
  of \<open>lfb_channels\<close> zeros, and leaves the random source as it was.
\<close>

theorem sample_long_term_features_zero_fill:
  fixes cvt :: "dtype \<Rightarrow> dtype \<Rightarrow> 'a::zero \<Rightarrow> 'a"
  assumes "get_video_features loads self video_id = Inr vf"
    and "0 \<le> window_size self" and "0 \<le> max_num_sampled_feat self" and "0 \<le> lfb_channels self"
    and "\<forall>sec \<in> set (window self timestamp). no_features vf sec"
  shows "sample_long_term_features cvt loads self video_id timestamp g
           = Inr (\<lparr>t_dtype = Float32,
                   t_rows = replicate (nat (window_size self * max_num_sampled_feat self))
                              (replicate (nat (lfb_channels self)) 0)\<rparr>, g)"
proof -
  have nn: "0 \<le> window_size self * max_num_sampled_feat self" using assms(2,3) by simp
  have z: "torch_zeros (window_size self * max_num_sampled_feat self) (lfb_channels self)
             = Inr \<lparr>t_dtype = Float32,
                   t_rows = replicate (nat (window_size self * max_num_sampled_feat self))
                              (replicate (nat (lfb_channels self)) (0::'a))\<rparr>"
    using nn assms(4) by (simp add: torch_zeros_def not_less)
  show ?thesis
    using assms(1) z sample_loop_no_features [OF assms(5) [unfolded window_def] assms(3)]
    by (simp add: sample_long_term_features_def Let_def)
qed

theorem sample_long_term_features_zero_fill_witness:
  "sample_long_term_features (\<lambda>_ _ x. x) (\<lambda>_. Inl EOFError) ex_lfb ''vid42'' 100 (siterate Suc 1)
     = Inr (\<lparr>t_dtype = Float32, t_rows = replicate 8 [0, 0, 0]\<rparr>, siterate Suc 1)"
proof -
  have h1: "get_video_features (\<lambda>_. Inl EOFError) ex_lfb ''vid42'' = Inr ex_features"
    by (simp add: get_video_features_def ex_lfb_def)
  have h2: "0 \<le> window_size ex_lfb" "0 \<le> max_num_sampled_feat ex_lfb" "0 \<le> lfb_channels ex_lfb"
    by (simp_all add: ex_lfb_def)
  have h3: "\<forall>sec \<in> set (window ex_lfb 100). no_features ex_features sec"
    by (simp add: window_def py_range_def upto_rec_numeral ex_lfb_def ex_features_def no_features_def)
  show ?thesis
    using sample_long_term_features_zero_fill [OF h1 h2 h3, of "\<lambda>_ _ x. x" "siterate Suc 1"]
    by (simp add: ex_lfb_def eval_nat_numeral)
qed

subsection \<open>Rows a second contributes\<close>

lemmas sampler_defs =
  sample_long_term_features_def get_video_features_def torch_zeros_def py_range_def
  random_lfb_indices_def np_random_choice_def permutation_def random_interval_def swap_def
  tensor_getrow_def tensor_setrow_def Let_def

text \<open>
  C3, as stated, fails: a stored feature vector that is zero is copied as a zero row, so
  a second with one such feature contributes no non-zero row although
  \<open>min f max_num_sampled_feat = 1\<close>.
\<close>

theorem nonzero_rows_counterexample:
  "sample_long_term_features (\<lambda>_ _ x. x) (\<lambda>_. Inl EOFError) ex_zero_lfb ''vid0'' 10 (siterate Suc 1)
     = Inr (\<lparr>t_dtype = Float32, t_rows = [[0, 0, 0], [0, 0, 0]]\<rparr>, siterate Suc 1)
   \<and> nonzero_rows ex_zero_lfb \<lparr>t_dtype = Float32, t_rows = [[0, 0, 0], [0, 0, 0]]\<rparr> 0
       \<noteq> nat (min (int (length [[0::int, 0, 0]])) (max_num_sampled_feat ex_zero_lfb))"
  by (simp add: sampler_defs ex_zero_lfb_def nonzero_rows_def zero_row_def upto_rec_numeral
        eval_nat_numeral)

text \<open>
  C3, amended. A second of the window with \<open>f\<close> features contributes at most
  \<open>min f max_num_sampled_feat\<close> non-zero rows, for every \<open>f\<close>; it contributes exactly that
  many when none of its stored vectors is copied as the zero row.
\<close>

theorem nonzero_rows_bound:
  assumes "get_video_features loads self video_id = Inr vf"
    and "0 \<le> window_size self" and "0 \<le> max_num_sampled_feat self" and "0 \<le> lfb_channels self"
    and "start = timestamp - window_size self div 2"
    and "\<forall>sec \<in> set (py_range start (start + window_size self)).
           \<forall>feats. vf sec = Some feats \<longrightarrow> rows_have_width (lfb_channels self) feats"
    and "i < nat (window_size self)"
    and "vf (start + int i) = Some feats"
  shows "\<exists>blk g'. sample_long_term_features cvt loads self video_id timestamp g = Inr (blk, g')
      \<and> int (nonzero_rows self blk i) \<le> min (int (length (t_rows feats))) (max_num_sampled_feat self)
      \<and> ((\<forall>r < length (t_rows feats). converted_row cvt feats r \<noteq> zero_row self) \<longrightarrow>
            int (nonzero_rows self blk i)
              = min (int (length (t_rows feats))) (max_num_sampled_feat self))"
proof -
  let ?Kn = "nat (max_num_sampled_feat self)"
  let ?secs = "py_range start (start + window_size self)"
  from sample_long_term_features_segments [OF assms(1-6), of cvt g]
  obtain segs g' where
    r: "sample_long_term_features cvt loads self video_id timestamp g
          = Inr (\<lparr>t_dtype = Float32, t_rows = concat segs\<rparr>, g')"
    and a: "list_all2 (segment_ok cvt self vf) ?secs segs" by blast
  let ?blk = "\<lparr>t_dtype = Float32, t_rows = concat segs\<rparr>"
  have secs: "?secs = map (\<lambda>i. start + int i) [0..<nat (window_size self)]"
    using assms(2) by (rule py_range_conv)
  have lsegs: "length segs = nat (window_size self)"
    using list_all2_lengthD [OF a] secs by simp
  have ok: "segment_ok cvt self vf (start + int j) (segs ! j)" if "j < nat (window_size self)" for j
    using list_all2_nthD2 [OF a, of j] that lsegs secs by simp
  have lseg: "\<forall>s \<in> set segs. length s = ?Kn"
  proof
    fix s assume "s \<in> set segs"
    then obtain j where j: "j < length segs" and s: "s = segs ! j" by (auto simp: in_set_conv_nth)
    show "length s = ?Kn" unfolding s
      by (rule segment_ok_length [OF assms(3) ok]) (use j lsegs in simp)
  qed
  have td: "take ?Kn (drop (i * ?Kn) (t_rows ?blk)) = segs ! i"
    using take_drop_concat_uniform [OF lseg, of i] assms(7) lsegs by simp
  from ok [OF assms(7)] assms(8) obtain idxs where v: "valid_draw self feats idxs"
    and s: "segs ! i = segment_of cvt self feats idxs" by (auto simp: segment_ok_def)
  have nz: "nonzero_rows self ?blk i
              = length (filter (\<lambda>row. row \<noteq> zero_row self) (map (converted_row cvt feats) idxs))"
    unfolding nonzero_rows_def td s segment_of_def by simp
  have len: "int (length idxs) = min (int (length (t_rows feats))) (max_num_sampled_feat self)"
    using v by (simp add: valid_draw_def)
  have "nonzero_rows self ?blk i \<le> length idxs"
    unfolding nz using length_filter_le [of _ "map (converted_row cvt feats) idxs"] by simp
  then have "int (nonzero_rows self ?blk i) \<le> int (length idxs)" by (simp only: of_nat_le_iff)
  then have le: "int (nonzero_rows self ?blk i)
                  \<le> min (int (length (t_rows feats))) (max_num_sampled_feat self)"
    unfolding len .
  have eq: "int (nonzero_rows self ?blk i) = min (int (length (t_rows feats))) (max_num_sampled_feat self)"
    if all: "\<forall>r < length (t_rows feats). converted_row cvt feats r \<noteq> zero_row self"
  proof -
    have "\<forall>row \<in> set (map (converted_row cvt feats) idxs). row \<noteq> zero_row self"
      using all v by (auto simp: valid_draw_def)
    then have "filter (\<lambda>row. row \<noteq> zero_row self) (map (converted_row cvt feats) idxs)
                 = map (converted_row cvt feats) idxs"
      by (simp only: filter_True)
    then show ?thesis using nz len by simp
  qed
  show ?thesis unfolding r using le eq by blast
qed

theorem nonzero_rows_bound_witness:
  "\<exists>blk g'. sample_long_term_features (\<lambda>_ _ x. x) (\<lambda>_. Inl EOFError) ex_lfb ''vid42'' 11 (siterate Suc 1)
       = Inr (blk, g')
     \<and> nonzero_rows ex_lfb blk 2 = 1"
proof -
  have h1: "get_video_features (\<lambda>_. Inl EOFError) ex_lfb ''vid42'' = Inr ex_features"
    by (simp add: get_video_features_def ex_lfb_def)
  have h2: "0 \<le> window_size ex_lfb" "0 \<le> max_num_sampled_feat ex_lfb" "0 \<le> lfb_channels ex_lfb"
    by (simp_all add: ex_lfb_def)
  have h3: "(9::int) = 11 - window_size ex_lfb div 2" by (simp add: ex_lfb_def)
  have h4: "\<forall>sec \<in> set (py_range 9 (9 + window_size ex_lfb)).
           \<forall>feats. ex_features sec = Some feats \<longrightarrow> rows_have_width (lfb_channels ex_lfb) feats"
    by (simp add: py_range_def upto_rec_numeral ex_lfb_def ex_features_def rows_have_width_def)
  have h5: "2 < nat (window_size ex_lfb)" by (simp add: ex_lfb_def)
  have h6: "ex_features (9 + int 2) = Some \<lparr>t_dtype = Float16, t_rows = [[9, 9, 9]]\<rparr>"
    by (simp add: ex_features_def)
  have h7: "\<forall>r < length (t_rows \<lparr>t_dtype = Float16, t_rows = [[9, 9, 9::int]]\<rparr>).
              converted_row (\<lambda>_ _ x. x) \<lparr>t_dtype = Float16, t_rows = [[9, 9, 9]]\<rparr> r \<noteq> zero_row ex_lfb"
    by (simp add: converted_row_def zero_row_def ex_lfb_def eval_nat_numeral)
  from nonzero_rows_bound [OF h1 h2 h3 h4 h5 h6, of "\<lambda>_ _ x. x" "siterate Suc 1"] h7
  show ?thesis by (auto simp: ex_lfb_def)
qed

subsection \<open>Sampling without replacement\<close>

text \<open>
  C4. For every state of the random source, the indices drawn for the features of one
  second are pairwise distinct indices of those features, \<open>min f max_num_sampled_feat\<close>
  many.
\<close>

theorem random_lfb_indices_distinct:
  assumes "0 \<le> max_num_sampled_feat self"
  shows "\<exists>idxs g'. random_lfb_indices self feats g = Inr (idxs, g')
           \<and> distinct idxs \<and> (\<forall>r \<in> set idxs. r < length (t_rows feats))
           \<and> int (length idxs) = min (int (length (t_rows feats))) (max_num_sampled_feat self)"
  using random_lfb_indices_ok [OF assms, of feats g] by (simp add: valid_draw_def)

theorem random_lfb_indices_distinct_witness:
  "\<exists>idxs g'. random_lfb_indices ex_lfb \<lparr>t_dtype = Float16, t_rows = [[1, 1, 1], [2, 2, 2]]\<rparr>
                (siterate Suc 1) = Inr (idxs, g')
     \<and> distinct idxs \<and> length idxs = 2"
proof -
  have h: "0 \<le> max_num_sampled_feat ex_lfb" by (simp add: ex_lfb_def)
  from random_lfb_indices_distinct [OF h, of "\<lparr>t_dtype = Float16, t_rows = [[1, 1, 1], [2, 2, 2]]\<rparr>" "siterate Suc 1"]
  show ?thesis by (auto simp: ex_lfb_def)
qed

subsection \<open>The block is a new tensor of float32\<close>

lemma assign_rows_dtype:
  "assign_rows cvt self lt feats idx k rs = Inr lt' \<Longrightarrow> t_dtype lt' = t_dtype lt"
proof (induction rs arbitrary: lt k)
  case Nil
  then show ?case by simp
next
  case (Cons r rs)
  from Cons.prems obtain row lt1 where
    s: "tensor_setrow cvt lt (int idx * max_num_sampled_feat self + int k)
           (lfb_channels self) (t_dtype feats) row = Inr lt1"
    and a: "assign_rows cvt self lt1 feats idx (Suc k) rs = Inr lt'"
    by (auto split: sum.splits)
  have "t_dtype lt1 = t_dtype lt"
    using s by (auto simp: tensor_setrow_def Let_def split: if_splits)
  with Cons.IH [OF a] show ?case by simp
qed

lemma sample_loop_dtype:
  "sample_loop cvt self vf lt idx secs g = Inr (lt', g') \<Longrightarrow> t_dtype lt' = t_dtype lt"
proof (induction secs arbitrary: lt idx g)
  case Nil
  then show ?case by simp
next
  case (Cons sec secs)
  show ?case
  proof (cases "vf sec")
    case None
    then show ?thesis using Cons by simp
  next
    case (Some feats)
    with Cons.prems obtain indices g1 lt1 where
      a: "assign_rows cvt self lt feats idx 0 indices = Inr lt1"
      and r: "sample_loop cvt self vf lt1 (Suc idx) secs g1 = Inr (lt', g')"
      by (auto split: sum.splits prod.splits)
    from Cons.IH [OF r] assign_rows_dtype [OF a] show ?thesis by simp
  qed
qed

lemma sample_long_term_features_dtype:
  assumes "sample_long_term_features cvt loads self video_id timestamp g = Inr (blk, g')"
  shows "t_dtype blk = Float32"
proof -
  from assms obtain vf lt where
    z: "torch_zeros (window_size self * max_num_sampled_feat self) (lfb_channels self) = Inr lt"
    and r: "sample_loop cvt self vf lt 0
              (py_range (timestamp - window_size self div 2)
                 (timestamp - window_size self div 2 + window_size self)) g = Inr (blk, g')"
    by (auto simp: sample_long_term_features_def Let_def split: sum.splits)
  have "t_dtype lt = Float32" using z by (auto simp: torch_zeros_def split: if_splits)
  with sample_loop_dtype [OF r] show ?thesis by simp
qed

lemma obj_assign_rows_sim:
  assumes "cells m dst = Some lt" and "cells m src = Some feats" and "src \<noteq> dst"
  shows "obj_assign_rows cvt self m dst src idx k rs =
           (case assign_rows cvt self lt feats idx k rs of
              Inl e \<Rightarrow> Inl e
            | Inr lt' \<Rightarrow> Inr (m\<lparr>cells := (cells m)(dst \<mapsto> lt')\<rparr>))"
  using assms
proof (induction rs arbitrary: m lt k)
  case Nil
  have "(cells m)(dst \<mapsto> lt) = cells m" using Nil(1) by (rule map_upd_triv)
  then show ?case by simp
next
  case (Cons r rs)
  show ?case
  proof (cases "tensor_getrow feats r")
    case (Inl e)
    then show ?thesis using Cons.prems by simp
  next
    case (Inr row)
    show ?thesis
    proof (cases "tensor_setrow cvt lt (int idx * max_num_sampled_feat self + int k)
                    (lfb_channels self) (t_dtype feats) row")
      case (Inl e)
      then show ?thesis using Cons.prems Inr by simp
    next
      case s: (Inr lt1)
      let ?m1 = "m\<lparr>cells := (cells m)(dst \<mapsto> lt1)\<rparr>"
      have ih: "obj_assign_rows cvt self ?m1 dst src idx (Suc k) rs =
           (case assign_rows cvt self lt1 feats idx (Suc k) rs of
              Inl e \<Rightarrow> Inl e
            | Inr lt' \<Rightarrow> Inr (?m1\<lparr>cells := (cells ?m1)(dst \<mapsto> lt')\<rparr>))"
        by (rule Cons.IH) (use Cons.prems in simp_all)
      have upd: "?m1\<lparr>cells := (cells ?m1)(dst \<mapsto> lt')\<rparr> = m\<lparr>cells := (cells m)(dst \<mapsto> lt')\<rparr>" for lt'
        by simp
      show ?thesis
        using Cons.prems Inr s ih unfolding upd by simp
    qed
  qed
qed

lemma obj_sample_loop_sim:
  assumes "cells m dst = Some lt"
    and "\<forall>sec a. refs sec = Some a \<longrightarrow> a \<noteq> dst \<and> cells m a \<noteq> None"
  shows "obj_sample_loop cvt self refs m dst idx secs g =
           (case sample_loop cvt self (deref refs m) lt idx secs g of
              Inl e \<Rightarrow> Inl e
            | Inr (lt', g') \<Rightarrow> Inr (m\<lparr>cells := (cells m)(dst \<mapsto> lt')\<rparr>, g'))"
  using assms
proof (induction secs arbitrary: m lt idx g)
  case Nil
  have "(cells m)(dst \<mapsto> lt) = cells m" using Nil(1) by (rule map_upd_triv)
  then show ?case by simp
next
  case (Cons sec secs)
  show ?case
  proof (cases "refs sec")
    case None
    then have d: "deref refs m sec = None" by (simp add: deref_def)
    show ?thesis using None d Cons.IH [OF Cons.prems] by simp
  next
    case (Some src)
    with Cons.prems(2) obtain feats where nd: "src \<noteq> dst" and f: "cells m src = Some feats"
      by fastforce
    have d: "deref refs m sec = Some feats" using Some f by (simp add: deref_def)
    show ?thesis
    proof (cases "random_lfb_indices self feats g")
      case (Inl e)
      then show ?thesis using Some f d by simp
    next
      case (Inr p)
      obtain ix g1 where p: "p = (ix, g1)" by (cases p)
      note a = obj_assign_rows_sim [OF Cons.prems(1) f nd, of cvt self idx 0 ix]
      show ?thesis
      proof (cases "assign_rows cvt self lt feats idx 0 ix")
        case (Inl e)
        then show ?thesis using Some f d Inr p a by simp
      next
        case r: (Inr lt1)
        let ?m1 = "m\<lparr>cells := (cells m)(dst \<mapsto> lt1)\<rparr>"
        have same: "deref refs ?m1 = deref refs m"
        proof (rule ext)
          fix s show "deref refs ?m1 s = deref refs m s"
            using Cons.prems(2) by (cases "refs s") (auto simp: deref_def)
        qed
        have ih: "obj_sample_loop cvt self refs ?m1 dst (Suc idx) secs g1 =
           (case sample_loop cvt self (deref refs ?m1) lt1 (Suc idx) secs g1 of
              Inl e \<Rightarrow> Inl e
            | Inr (lt', g') \<Rightarrow> Inr (?m1\<lparr>cells := (cells ?m1)(dst \<mapsto> lt')\<rparr>, g'))"
          by (rule Cons.IH) (use Cons.prems(2) in auto)
        have upd: "?m1\<lparr>cells := (cells ?m1)(dst \<mapsto> lt')\<rparr> = m\<lparr>cells := (cells m)(dst \<mapsto> lt')\<rparr>" for lt'
          by simp
        show ?thesis
          using Some f d Inr p a r ih unfolding same upd by simp
      qed
    qed
  qed
qed

lemma obj_sample_props:
  fixes cvt :: "dtype \<Rightarrow> dtype \<Rightarrow> 'a::zero \<Rightarrow> 'a"
  assumes ok: "mem_ok self m"
    and look: "get_video_features loads self video_id = Inr vf"
    and pure: "sample_long_term_features cvt loads self video_id timestamp g = Inr (blk, g')"
  shows "\<exists>m'. obj_sample_long_term_features cvt loads self m video_id timestamp g
                 = Inr (Fresh (allocs m), m', g')
           \<and> cells m (Fresh (allocs m)) = None
           \<and> (\<forall>a x. cells m a = Some x \<longrightarrow> cells m' a = Some x)
           \<and> cells m' (Fresh (allocs m)) = Some blk"
proof -
  let ?secs = "py_range (timestamp - window_size self div 2)
                 (timestamp - window_size self div 2 + window_size self)"
  let ?dst = "Fresh (allocs m)"
  from pure look obtain zeros :: "'a tensor" where
    z: "torch_zeros (window_size self * max_num_sampled_feat self) (lfb_channels self) = Inr zeros"
    and loop: "sample_loop cvt self vf zeros 0 ?secs g = Inr (blk, g')"
    by (auto simp: sample_long_term_features_def Let_def split: sum.splits)
  have fresh: "cells m ?dst = None" using ok by (simp add: mem_ok_def)
  obtain refs m1 where
    g: "obj_get_video_features loads self m video_id = Inr (refs, m1)"
    and al: "allocs m1 = allocs m"
    and keep: "\<forall>a x. cells m a = Some x \<longrightarrow> cells m1 a = Some x"
    and fr1: "cells m1 ?dst = None"
    and dr: "\<forall>s. (case refs s of None \<Rightarrow> vf s = None
                    | Some a \<Rightarrow> a \<noteq> ?dst \<and> vf s \<noteq> None \<and> cells m1 a = vf s)"
  proof (cases "device self = ''lmdb''")
    case True
    let ?refs = "\<lambda>s. map_option (\<lambda>_. Loaded (loads_done m) s) (vf s)"
    let ?m1 = "m\<lparr>cells := (\<lambda>a. case a of
                                   Loaded n s \<Rightarrow> if n = loads_done m then vf s else cells m a
                                 | _ \<Rightarrow> cells m a),
                   loads_done := Suc (loads_done m)\<rparr>"
    have 1: "obj_get_video_features loads self m video_id = Inr (?refs, ?m1)"
      using look True by (simp add: obj_get_video_features_def)
    have unused: "cells m (Loaded (loads_done m) s) = None" for s
      using ok by (simp add: mem_ok_def)
    have 2: "\<forall>a x. cells m a = Some x \<longrightarrow> cells ?m1 a = Some x"
      using unused by (auto split: addr.splits)
    have 3: "cells ?m1 ?dst = None" using fresh by simp
    have 4: "\<forall>s. (case ?refs s of None \<Rightarrow> vf s = None
                    | Some a \<Rightarrow> a \<noteq> ?dst \<and> vf s \<noteq> None \<and> cells ?m1 a = vf s)"
      by (auto split: option.splits)
    from 1 2 3 4 show ?thesis by (intro that [of ?refs ?m1]) simp_all
  next
    case False
    let ?refs = "\<lambda>s. map_option (\<lambda>_. Stored video_id s) (vf s)"
    have 1: "obj_get_video_features loads self m video_id = Inr (?refs, m)"
      using look False by (simp add: obj_get_video_features_def)
    from look False obtain d where d: "lfb self = Some d" and v: "map_of d video_id = Some vf"
      by (auto simp: get_video_features_def split: option.splits)
    have st: "cells m (Stored video_id s) = vf s" for s
      using ok d v by (simp add: mem_ok_def bank_cells_def)
    have 4: "\<forall>s. (case ?refs s of None \<Rightarrow> vf s = None
                    | Some a \<Rightarrow> a \<noteq> ?dst \<and> vf s \<noteq> None \<and> cells m a = vf s)"
      using st by (auto split: option.splits)
    from 1 fresh 4 show ?thesis by (intro that [of ?refs m]) simp_all
  qed
  let ?m2 = "m1\<lparr>cells := (cells m1)(?dst \<mapsto> zeros), allocs := Suc (allocs m1)\<rparr>"
  have c2: "cells ?m2 ?dst = Some zeros" by simp
  have r2: "\<forall>sec a. refs sec = Some a \<longrightarrow> a \<noteq> ?dst \<and> cells ?m2 a \<noteq> None"
  proof (intro allI impI)
    fix sec a assume "refs sec = Some a"
    with dr [rule_format, of sec] show "a \<noteq> ?dst \<and> cells ?m2 a \<noteq> None" by auto
  qed
  have dv: "deref refs ?m2 = vf"
  proof (rule ext)
    fix s show "deref refs ?m2 s = vf s"
      using dr [rule_format, of s] by (cases "refs s") (auto simp: deref_def)
  qed
  have sim: "obj_sample_loop cvt self refs ?m2 ?dst 0 ?secs g
               = Inr (?m2\<lparr>cells := (cells ?m2)(?dst \<mapsto> blk)\<rparr>, g')"
    using obj_sample_loop_sim [OF c2 r2, of cvt self 0 ?secs g] loop unfolding dv by simp
  let ?m3 = "?m2\<lparr>cells := (cells ?m2)(?dst \<mapsto> blk)\<rparr>"
  have res: "obj_sample_long_term_features cvt loads self m video_id timestamp g
                 = Inr (?dst, ?m3, g')"
    using g z sim al by (simp add: obj_sample_long_term_features_def Let_def)
  have k3: "\<forall>a x. cells m a = Some x \<longrightarrow> cells ?m3 a = Some x"
  proof (intro allI impI)
    fix a x assume a: "cells m a = Some x"
    then have "a \<noteq> ?dst" using fresh by auto
    with keep a show "cells ?m3 a = Some x" by simp
  qed
  have "cells ?m3 ?dst = Some blk" by simp
  with res fresh k3 show ?thesis by blast
qed

text \<open>
  C10. Let the store hold the bank, let the backend have the video and the sizes and
  stored rows be as for the layout. Then the method returns the reference
  \<open>Fresh (allocs m)\<close>, which was no object before the call; every object that was
  there before, the stored tensors among them, is as it was, with the element type it
  had; and the object returned has element type float32, its rows for the drawn
  features being the stored rows converted from their element type to float32.
\<close>

theorem sample_block_fresh_float32:
  fixes cvt :: "dtype \<Rightarrow> dtype \<Rightarrow> 'a::zero \<Rightarrow> 'a"
  assumes "mem_ok self m"
    and "backend_has loads self video_id vf"
    and "0 \<le> window_size self" and "0 \<le> max_num_sampled_feat self" and "0 \<le> lfb_channels self"
    and "start = timestamp - window_size self div 2"
    and "\<forall>sec \<in> set (window self timestamp).
           \<forall>feats. vf sec = Some feats \<longrightarrow> rows_have_width (lfb_channels self) feats"
  shows "\<exists>m' blk. obj_sample_long_term_features cvt loads self m video_id timestamp g
                 = Inr (Fresh (allocs m), m', rng_after self vf (window self timestamp) g)
      \<and> cells m (Fresh (allocs m)) = None
      \<and> (\<forall>a x. cells m a = Some x \<longrightarrow> cells m' a = Some x)
      \<and> cells m' (Fresh (allocs m)) = Some blk
      \<and> t_dtype blk = Float32
      \<and> length (t_rows blk) = nat (window_size self) * nat (max_num_sampled_feat self)
      \<and> (\<forall>i < nat (window_size self). \<forall>feats. vf (start + int i) = Some feats \<longrightarrow>
            (\<forall>k < length (draw_at self vf (window self timestamp) g i).
               t_rows blk ! (i * nat (max_num_sampled_feat self) + k)
                 = map (cvt (t_dtype feats) Float32)
                     (t_rows feats ! (draw_at self vf (window self timestamp) g i ! k))))"
proof -
  note look = backend_has_lookup [OF assms(2)]
  from sample_long_term_features_rows [OF look assms(3-7), of cvt g]
  obtain blk where
    r: "sample_long_term_features cvt loads self video_id timestamp g
               = Inr (blk, rng_after self vf (window self timestamp) g)"
    and l: "length (t_rows blk) = nat (window_size self) * nat (max_num_sampled_feat self)"
    and s: "\<forall>i < nat (window_size self).
            case vf (start + int i) of
              None \<Rightarrow>
                (\<forall>k < nat (max_num_sampled_feat self).
                   t_rows blk ! (i * nat (max_num_sampled_feat self) + k) = zero_row self)
            | Some feats \<Rightarrow>
                valid_draw self feats (draw_at self vf (window self timestamp) g i)
                \<and> (\<forall>k < length (draw_at self vf (window self timestamp) g i).
                      t_rows blk ! (i * nat (max_num_sampled_feat self) + k)
                        = converted_row cvt feats (draw_at self vf (window self timestamp) g i ! k))
                \<and> (\<forall>k. length (draw_at self vf (window self timestamp) g i) \<le> k
                        \<and> k < nat (max_num_sampled_feat self) \<longrightarrow>
                      t_rows blk ! (i * nat (max_num_sampled_feat self) + k) = zero_row self)"
    by blast
  have dt: "t_dtype blk = Float32" by (rule sample_long_term_features_dtype [OF r])
  have rows: "\<forall>i < nat (window_size self). \<forall>feats. vf (start + int i) = Some feats \<longrightarrow>
            (\<forall>k < length (draw_at self vf (window self timestamp) g i).
               t_rows blk ! (i * nat (max_num_sampled_feat self) + k)
                 = map (cvt (t_dtype feats) Float32)
                     (t_rows feats ! (draw_at self vf (window self timestamp) g i ! k)))"
  proof (intro allI impI)
    fix i feats k
    assume i: "i < nat (window_size self)" and f: "vf (start + int i) = Some feats"
      and k: "k < length (draw_at self vf (window self timestamp) g i)"
    from s [rule_format, OF i] f k
    show "t_rows blk ! (i * nat (max_num_sampled_feat self) + k)
                 = map (cvt (t_dtype feats) Float32)
                     (t_rows feats ! (draw_at self vf (window self timestamp) g i ! k))"
      by (simp add: converted_row_def)
  qed
  from obj_sample_props [OF assms(1) look r] obtain m' where
    "obj_sample_long_term_features cvt loads self m video_id timestamp g
                 = Inr (Fresh (allocs m), m', rng_after self vf (window self timestamp) g)"
    "cells m (Fresh (allocs m)) = None"
    "\<forall>a x. cells m a = Some x \<longrightarrow> cells m' a = Some x"
    "cells m' (Fresh (allocs m)) = Some blk"
    by blast
  with dt l rows show ?thesis by blast
qed

theorem sample_block_fresh_float32_witness:
  "\<exists>m' blk g'. obj_sample_long_term_features (\<lambda>_ _ x. x) (\<lambda>_. Inl EOFError) ex_lfb ex_mem ''vid42'' 11
                   (siterate Suc 0) = Inr (Fresh 0, m', g')
     \<and> cells ex_mem (Fresh 0) = None
     \<and> cells m' (Stored ''vid42'' 11) = Some \<lparr>t_dtype = Float16, t_rows = [[9, 9, 9]]\<rparr>
     \<and> cells m' (Fresh 0) = Some blk
     \<and> t_dtype blk = Float32
     \<and> t_rows blk ! 2 = [2, 2, 2] \<and> t_rows blk ! 3 = [1, 1, 1] \<and> t_rows blk ! 4 = [9, 9, 9]"
proof -
  let ?g = "siterate Suc 0"
  let ?f10 = "\<lparr>t_dtype = Float16, t_rows = [[1, 1, 1], [2, 2, 2::int]]\<rparr>"
  let ?f11 = "\<lparr>t_dtype = Float16, t_rows = [[9, 9, 9::int]]\<rparr>"
  have h0: "mem_ok ex_lfb ex_mem"
    by (simp add: mem_ok_def ex_mem_def ex_lfb_def bank_cells_def)
  have h1: "backend_has (\<lambda>_. Inl EOFError) ex_lfb ''vid42'' ex_features"
    by (simp add: backend_has_def ex_lfb_def)
  have h2: "0 \<le> window_size ex_lfb" "0 \<le> max_num_sampled_feat ex_lfb" "0 \<le> lfb_channels ex_lfb"
    by (simp_all add: ex_lfb_def)
  have h3: "(9::int) = 11 - window_size ex_lfb div 2" by (simp add: ex_lfb_def)
  have w: "window ex_lfb 11 = [9, 10, 11, 12]"
    by (simp add: window_def py_range_def upto_rec_numeral ex_lfb_def)
  have h4: "\<forall>sec \<in> set (window ex_lfb 11).
           \<forall>feats. ex_features sec = Some feats \<longrightarrow> rows_have_width (lfb_channels ex_lfb) feats"
    unfolding w by (simp add: ex_lfb_def ex_features_def rows_have_width_def)
  have K: "nat (max_num_sampled_feat ex_lfb) = 2" and W: "nat (window_size ex_lfb) = 4"
    by (simp_all add: ex_lfb_def)
  have a0: "allocs ex_mem = 0" by (simp add: ex_mem_def)
  have e: "ex_features 9 = None" "ex_features 10 = Some ?f10" "ex_features 11 = Some ?f11"
    by (simp_all add: ex_features_def)
  have st: "cells ex_mem (Stored ''vid42'' 11) = Some ?f11"
    by (simp add: ex_mem_def bank_cells_def e)
  have c10: "random_lfb_indices ex_lfb ?f10 ?g = Inr ([1, 0], siterate Suc 1)"
    by (simp add: random_lfb_indices_def np_random_choice_def permutation_def random_interval_def
          swap_def ex_lfb_def Let_def upt_rec)
  have c11: "random_lfb_indices ex_lfb ?f11 (siterate Suc 1) = Inr ([0], siterate Suc 1)"
    by (simp add: random_lfb_indices_def np_random_choice_def permutation_def ex_lfb_def Let_def)
  have d1: "draw_at ex_lfb ex_features [9, 10, 11, 12] ?g (Suc 0) = [1, 0]"
    using c10 by (simp add: draw_at_def rng_after_def rng_step_def e)
  have d2: "draw_at ex_lfb ex_features [9, 10, 11, 12] ?g 2 = [0]"
    using c10 c11
    by (simp add: draw_at_def rng_after_def rng_step_def e eval_nat_numeral)
  from sample_block_fresh_float32 [OF h0 h1 h2 h3 h4, of "\<lambda>_ _ x. x" ?g]
  obtain m' blk where
    r: "obj_sample_long_term_features (\<lambda>_ _ x. x) (\<lambda>_. Inl EOFError) ex_lfb ex_mem ''vid42'' 11 ?g
          = Inr (Fresh (allocs ex_mem), m', rng_after ex_lfb ex_features (window ex_lfb 11) ?g)"
    and fr: "cells ex_mem (Fresh (allocs ex_mem)) = None"
    and keep: "\<forall>a x. cells ex_mem a = Some x \<longrightarrow> cells m' a = Some x"
    and b: "cells m' (Fresh (allocs ex_mem)) = Some blk"
    and dt: "t_dtype blk = Float32"
    and rows: "\<forall>i < nat (window_size ex_lfb). \<forall>feats. ex_features (9 + int i) = Some feats \<longrightarrow>
            (\<forall>k < length (draw_at ex_lfb ex_features (window ex_lfb 11) ?g i).
               t_rows blk ! (i * nat (max_num_sampled_feat ex_lfb) + k)
                 = map ((\<lambda>_ _ x. x) (t_dtype feats) Float32)
                     (t_rows feats ! (draw_at ex_lfb ex_features (window ex_lfb 11) ?g i ! k)))"
    by blast
  have s1: "\<forall>k < 2. t_rows blk ! (2 + k) = t_rows ?f10 ! ([1, 0] ! k)"
    using rows [rule_format, of 1 ?f10] by (simp add: e K W w d1)
  have s2: "\<forall>k < 1. t_rows blk ! (4 + k) = t_rows ?f11 ! ([0] ! k)"
    using rows [rule_format, of 2 ?f11] by (simp add: e K W w d2)
  have r2: "t_rows blk ! 2 = [2, 2, 2]" and r3: "t_rows blk ! 3 = [1, 1, 1]"
    using s1 [rule_format, of 0] s1 [rule_format, of 1] by simp_all
  have r4: "t_rows blk ! 4 = [9, 9, 9]" using s2 [rule_format, of 0] by simp
  have k11: "cells m' (Stored ''vid42'' 11) = Some ?f11" using keep st by blast
  from r fr b dt r2 r3 r4 k11 show ?thesis unfolding a0 by blast
qed

subsection \<open>Merging partitions\<close>

lemma map_of_rev_distinct:
  assumes "distinct (map fst xs)"
  shows "map_of (rev xs) = map_of xs"
proof (rule ext)
  fix x
  have d: "distinct (map fst (rev xs))" using assms by (simp add: rev_map [symmetric])
  show "map_of (rev xs) x = map_of xs x"
  proof (cases "map_of xs x")
    case None
    then have "x \<notin> fst ` set xs" by (simp add: map_of_eq_None_iff)
    then have "map_of (rev xs) x = None" by (simp add: map_of_eq_None_iff)
    with None show ?thesis by simp
  next
    case (Some y)
    then have "(x, y) \<in> set (rev xs)" using assms by simp
    then have "map_of (rev xs) x = Some y" using d by (simp only: map_of_eq_Some_iff)
    with Some show ?thesis by simp
  qed
qed

lemma map_of_dict_update: "map_of (dict_update d other) = map_of d ++ map_of (rev other)"
proof (induction other arbitrary: d)
  case Nil
  then show ?case by (simp add: dict_update_def)
next
  case (Cons kv other)
  obtain k v where kv: "kv = (k, v)" by (cases kv)
  have "dict_update d (kv # other) = dict_update (AList.update k v d) other"
    by (simp add: dict_update_def kv)
  then have "map_of (dict_update d (kv # other))
               = map_of (AList.update k v d) ++ map_of (rev other)"
    by (simp only: Cons.IH)
  also have "\<dots> = (map_of d)(k \<mapsto> v) ++ map_of (rev other)"
    by (simp only: update_conv')
  also have "\<dots> = map_of d ++ map_of (rev (kv # other))"
    by (simp add: kv)
  finally show ?case .
qed

lemma load_modes_append:
  "load_modes ev prefix d (ms1 @ ms2) =
     (case load_modes ev prefix d ms1 of Inl e \<Rightarrow> Inl e | Inr d1 \<Rightarrow> load_modes ev prefix d1 ms2)"
  by (induction ms1 arbitrary: d) (simp_all split: option.splits)

lemma load_modes_total:
  "\<forall>m \<in> set ms. files ev (lfb_path ev prefix m) \<noteq> None \<Longrightarrow> \<exists>d'. load_modes ev prefix d ms = Inr d'"
  by (induction ms arbitrary: d) auto

lemma load_modes_keeps:
  assumes "load_modes ev prefix d ms = Inr d'" and "map_of d x = Some v"
    and "\<forall>m \<in> set ms. \<forall>part. files ev (lfb_path ev prefix m) = Some part \<longrightarrow> x \<notin> fst ` set part"
  shows "map_of d' x = Some v"
  using assms
proof (induction ms arbitrary: d)
  case Nil
  then show ?case by simp
next
  case (Cons m ms)
  from Cons.prems(1) obtain part where
    f: "files ev (lfb_path ev prefix m) = Some part"
    and r: "load_modes ev prefix (dict_update d part) ms = Inr d'"
    by (auto split: option.splits)
  have "x \<notin> fst ` set part" using Cons.prems(3) f by simp
  then have "map_of (rev part) x = None" by (simp add: map_of_eq_None_iff)
  then have "map_of (dict_update d part) x = Some v"
    using Cons.prems(2) by (simp add: map_of_dict_update map_add_def)
  from Cons.IH [OF r this] Cons.prems(3) show ?case by simp
qed

text \<open>
  C5. When every partition file is there, \<open>load_lfb\<close> succeeds, and a video defined in
  several partitions of \<open>dataset_modes\<close> is mapped to the value of the last partition
  that defines it: if partition \<open>m\<close> maps \<open>x\<close> to \<open>v\<close> and no partition after it
  defines \<open>x\<close>, the loaded bank maps \<open>x\<close> to \<open>v\<close>. For the partitions \<open>A, B\<close> that
  both define \<open>x\<close> the result is the value of \<open>B\<close>.
\<close>

theorem load_lfb_last_partition_wins:
  assumes "dataset_modes self = ms1 @ m # ms2"
    and "\<forall>m' \<in> set (dataset_modes self). files ev (lfb_path ev (lfb_prefix_path self) m') \<noteq> None"
    and "files ev (lfb_path ev (lfb_prefix_path self) m) = Some part"
    and "distinct (map fst part)"
    and "map_of part x = Some v"
    and "\<forall>m' \<in> set ms2. \<forall>part'. files ev (lfb_path ev (lfb_prefix_path self) m') = Some part'
           \<longrightarrow> x \<notin> fst ` set part'"
  shows "\<exists>self'. load_lfb ev self = Inr self' \<and> (\<exists>d. lfb self' = Some d \<and> map_of d x = Some v)"
proof -
  let ?p = "lfb_prefix_path self"
  from load_modes_total [OF assms(2), of "[]"] obtain d' where
    l: "load_modes ev ?p [] (dataset_modes self) = Inr d'" by blast
  from l obtain d1 where
    l1: "load_modes ev ?p [] ms1 = Inr d1"
    and l2: "load_modes ev ?p d1 (m # ms2) = Inr d'"
    unfolding assms(1) load_modes_append by (auto split: sum.splits)
  from l2 have l3: "load_modes ev ?p (dict_update d1 part) ms2 = Inr d'"
    using assms(3) by simp
  have "map_of (rev part) x = Some v"
    using assms(4,5) by (simp add: map_of_rev_distinct)
  then have "map_of (dict_update d1 part) x = Some v"
    by (simp add: map_of_dict_update map_add_def)
  from load_modes_keeps [OF l3 this assms(6)] have "map_of d' x = Some v" .
  then show ?thesis using l by (simp add: load_lfb_def)
qed

theorem load_lfb_last_partition_wins_witness:
  "\<exists>self'. load_lfb ex_env ex_unloaded = Inr self'
     \<and> (\<exists>d. lfb self' = Some d \<and> map_of d ''x'' = Some ex_features_B)"
proof -
  have h1: "dataset_modes ex_unloaded = [''A''] @ ''B'' # []" by (simp add: ex_unloaded_def)
  have h2: "\<forall>m' \<in> set (dataset_modes ex_unloaded).
              files ex_env (lfb_path ex_env (lfb_prefix_path ex_unloaded) m') \<noteq> None"
    by (simp add: ex_unloaded_def ex_env_def lfb_path_def osp_join_def)
  have h3: "files ex_env (lfb_path ex_env (lfb_prefix_path ex_unloaded) ''B'') = Some [(''x'', ex_features_B)]"
    by (simp add: ex_unloaded_def ex_env_def lfb_path_def osp_join_def)
  have h4: "distinct (map fst [(''x'', ex_features_B)])" by simp
  have h5: "map_of [(''x'', ex_features_B)] ''x'' = Some ex_features_B" by simp
  have h6: "\<forall>m' \<in> set []. \<forall>part'. files ex_env (lfb_path ex_env (lfb_prefix_path ex_unloaded) m') = Some part'
           \<longrightarrow> ''x'' \<notin> fst ` set part'" by simp
  show ?thesis by (rule load_lfb_last_partition_wins [OF h1 h2 h3 h4 h5 h6])
qed

subsection \<open>The combined key\<close>

lemma str_split_no_sep: "c \<notin> set s \<Longrightarrow> str_split c s = [s]"
  by (induction s) auto

lemma str_split_append: "c \<notin> set a \<Longrightarrow> str_split c (a @ c # b) = a # str_split c b"
  by (induction a) auto

lemma str_split_two: "c \<notin> set a \<Longrightarrow> c \<notin> set b \<Longrightarrow> str_split c (a @ c # b) = [a, b]"
  by (simp add: str_split_append str_split_no_sep)

lemma length_str_split: "length (str_split c s) = Suc (count_list s c)"
  by (induction s) (auto split: list.splits)

lemma not_two_parts:
  assumes "length xs \<noteq> 2"
  shows "(case xs of [a, b] \<Rightarrow> f a b | _ \<Rightarrow> z) = z"
  using assms by (auto split: list.splits)

lemma parse_digits_digit:
  "is_digit d \<Longrightarrow> parse_digits acc (d # s) = parse_digits (acc * 10 + digit_val d) s"
  by (cases s) simp_all

lemma underscore_not_digit: "\<not> is_digit CHR ''_''"
  by (simp add: is_digit_def)

lemma parse_digits_underscore:
  "is_digit d \<Longrightarrow> parse_digits acc (CHR ''_'' # d # s) = parse_digits (acc * 10 + digit_val d) s"
  by (simp add: underscore_not_digit)

lemma parse_digits_tail:
  "digit_tail t \<Longrightarrow> parse_digits acc t = Some (foldl (\<lambda>a c. a * 10 + digit_val c) acc (filter is_digit t))"
proof (induction arbitrary: acc rule: digit_tail.induct)
  case tail_end
  show ?case by simp
next
  case (tail_digit d s)
  then show ?case by (simp add: parse_digits_digit)
next
  case (tail_underscore d s)
  then show ?case by (simp add: parse_digits_underscore underscore_not_digit)
qed

lemma parse_digits_sound: "parse_digits acc t = Some v \<Longrightarrow> digit_tail t"
proof (induction acc t rule: parse_digits.induct)
  case (1 acc)
  show ?case by (rule tail_end)
next
  case (2 acc c)
  then have "is_digit c" by (simp split: if_splits)
  then show ?case by (intro tail_digit tail_end)
next
  case (3 acc c d ds)
  show ?case
  proof (cases "is_digit c")
    case True
    with 3 have "digit_tail (d # ds)" by simp
    with True show ?thesis by (rule tail_digit)
  next
    case False
    with "3.prems" have c: "c = CHR ''_''" and d: "is_digit d" by (simp_all split: if_splits)
    with False 3 have "digit_tail ds" by simp
    with d show ?thesis unfolding c by (rule tail_underscore)
  qed
qed

lemma digit_tail_chars: "digit_tail t \<Longrightarrow> \<forall>c \<in> set t. is_digit c \<or> c = CHR ''_''"
  by (induction rule: digit_tail.induct) auto

lemma digit_tail_last: "digit_tail t \<Longrightarrow> t \<noteq> [] \<Longrightarrow> is_digit (last t)"
  by (induction rule: digit_tail.induct) auto

lemma digitpart_props:
  assumes "digitpart body"
  shows "body \<noteq> []" and "is_digit (hd body)" and "is_digit (last body)"
    and "\<forall>c \<in> set body. is_digit c \<or> c = CHR ''_''"
proof -
  from assms obtain d t where b: "body = d # t" and d: "is_digit d" and t: "digit_tail t"
    by (auto simp: digitpart_def)
  show "body \<noteq> []" and "is_digit (hd body)" using b d by simp_all
  show "is_digit (last body)" using b d digit_tail_last [OF t] by (cases t) simp_all
  show "\<forall>c \<in> set body. is_digit c \<or> c = CHR ''_''" using b d digit_tail_chars [OF t] by simp
qed

lemma parse_unsigned_digitpart:
  assumes "digitpart body"
  shows "parse_unsigned limit body =
           (if over_limit limit (literal_digits body) then None
            else Some (decimal_value (filter is_digit body)))"
proof -
  from assms obtain d t where b: "body = d # t" and d: "is_digit d" and t: "digit_tail t"
    by (auto simp: digitpart_def)
  show ?thesis
    using d parse_digits_tail [OF t, of "digit_val d"]
    by (simp add: b parse_unsigned_def literal_digits_def decimal_value_def)
qed

lemma parse_unsigned_sound: "parse_unsigned limit body = Some v \<Longrightarrow> digitpart body"
proof -
  assume a: "parse_unsigned limit body = Some v"
  then obtain d t where b: "body = d # t" by (cases body) (simp_all add: parse_unsigned_def)
  from a have d: "is_digit d" by (simp add: b parse_unsigned_def split: if_splits)
  from a d obtain n where "parse_digits (digit_val d) t = Some n"
    by (auto simp: b parse_unsigned_def split: option.splits)
  then have "digit_tail t" by (rule parse_digits_sound)
  with b d show ?thesis by (auto simp: digitpart_def)
qed

lemma digit_not_space: "is_digit c \<Longrightarrow> \<not> is_space c"
  by (auto simp: is_digit_def is_space_def)

lemma digit_not_sign: "is_digit c \<Longrightarrow> c \<noteq> CHR ''-'' \<and> c \<noteq> CHR ''+'' \<and> c \<noteq> CHR '',''"
  by (auto simp: is_digit_def)

lemma space_not_sign: "is_space c \<Longrightarrow> c \<noteq> CHR ''-'' \<and> c \<noteq> CHR ''+'' \<and> c \<noteq> CHR '','' \<and> c \<noteq> CHR ''_''"
  by (auto simp: is_space_def)

lemma str_strip_core:
  assumes "list_all is_space a" and "list_all is_space b"
    and "core \<noteq> []" and "\<not> is_space (hd core)" and "\<not> is_space (last core)"
  shows "str_strip (a @ core @ b) = core"
proof -
  have 1: "dropWhile is_space (a @ core @ b) = core @ b"
  proof -
    have "dropWhile is_space (a @ core @ b) = dropWhile is_space (core @ b)"
      using assms(1) by (simp add: list_all_iff)
    also have "\<dots> = core @ b"
      using assms(3,4) by (cases core) simp_all
    finally show ?thesis .
  qed
  have 2: "dropWhile is_space (rev b @ rev core) = rev core"
  proof -
    have "\<And>x. x \<in> set (rev b) \<Longrightarrow> is_space x" using assms(2) by (simp add: list_all_iff)
    then have "dropWhile is_space (rev b @ rev core) = dropWhile is_space (rev core)"
      by (rule dropWhile_append2)
    also have "\<dots> = rev core"
      using assms(3,5) by (cases "rev core") (simp_all add: hd_rev [symmetric])
    finally show ?thesis .
  qed
  show ?thesis by (simp add: str_strip_def 1 2)
qed

lemma str_strip_decompose:
  "\<exists>a b. s = a @ str_strip s @ b \<and> list_all is_space a \<and> list_all is_space b"
proof -
  let ?r = "dropWhile is_space s"
  have s: "s = takeWhile is_space s @ ?r" by simp
  have r: "rev ?r = takeWhile is_space (rev ?r) @ dropWhile is_space (rev ?r)" by simp
  have "rev (rev ?r) = rev (takeWhile is_space (rev ?r) @ dropWhile is_space (rev ?r))"
    by (simp only: takeWhile_dropWhile_id)
  then have "?r = rev (dropWhile is_space (rev ?r)) @ rev (takeWhile is_space (rev ?r))"
    by (simp only: rev_rev_ident rev_append)
  then have "s = takeWhile is_space s @ str_strip s @ rev (takeWhile is_space (rev ?r))"
    using s by (simp add: str_strip_def)
  moreover have "list_all is_space (takeWhile is_space s)"
    by (auto simp: list_all_iff dest: set_takeWhileD)
  moreover have "list_all is_space (rev (takeWhile is_space (rev ?r)))"
    by (auto simp: list_all_iff dest: set_takeWhileD)
  ultimately show ?thesis by blast
qed

lemma int_literal_parts:
  assumes "s = a @ sn @ body @ b" and "list_all is_space a" and "list_all is_space b"
    and "sn = [] \<or> sn = ''+'' \<or> sn = ''-''" and "digitpart body"
  shows "str_strip s = sn @ body"
    and "filter is_digit s = filter is_digit body"
    and "CHR ''-'' \<in> set s \<longleftrightarrow> sn = ''-''"
proof -
  note bp = digitpart_props [OF assms(5)]
  have sp: "\<forall>c \<in> set a \<union> set b. is_space c" using assms(2,3) by (auto simp: list_all_iff)
  have ne: "sn @ body \<noteq> []" using bp(1) by simp
  have hd: "\<not> is_space (hd (sn @ body))"
    using assms(4) bp(1,2) digit_not_space by (auto simp: is_space_def)
  have la: "\<not> is_space (last (sn @ body))"
    using bp(1,3) digit_not_space by simp
  show "str_strip s = sn @ body"
    using str_strip_core [OF assms(2,3) ne hd la] assms(1) by simp
  have fa: "filter is_digit a = []" and fb: "filter is_digit b = []"
    using sp digit_not_space by (auto simp: filter_empty_conv)
  have fs: "filter is_digit sn = []"
    using assms(4) by (auto simp: is_digit_def)
  show "filter is_digit s = filter is_digit body"
    by (simp add: assms(1) fa fb fs)
  have "CHR ''-'' \<notin> set a" and "CHR ''-'' \<notin> set b" using sp space_not_sign by auto
  moreover have "CHR ''-'' \<notin> set body" using bp(4) by (auto simp: is_digit_def)
  ultimately show "CHR ''-'' \<in> set s \<longleftrightarrow> sn = ''-''"
    using assms(1,4) by auto
qed

lemma ascii_int_literal:
  assumes "int_literal s"
  shows "ascii_int limit s =
           (if over_limit limit (literal_digits s) then None else Some (literal_value s))"
proof -
  from assms obtain a sn body b where
    s: "s = a @ sn @ body @ b" and a: "list_all is_space a" and b: "list_all is_space b"
    and sg: "sn = [] \<or> sn = ''+'' \<or> sn = ''-''" and bd: "digitpart body"
    by (auto simp: int_literal_def)
  note p = int_literal_parts [OF s a b sg bd]
  note bp = digitpart_props [OF bd]
  have ld: "literal_digits s = literal_digits body" by (simp add: literal_digits_def p(2))
  note pu = parse_unsigned_digitpart [OF bd, of limit]
  from sg show ?thesis
  proof (elim disjE)
    assume e: "sn = []"
    obtain d t where body: "body = d # t" using bp(1) by (cases body) auto
    have "d \<noteq> CHR ''-''" and "d \<noteq> CHR ''+''" using bp(2) body digit_not_sign by auto
    then have "ascii_int limit s = map_option int (parse_unsigned limit body)"
      by (simp add: ascii_int_def p(1) e body)
    then show ?thesis
      using pu by (simp add: p(2,3) e literal_value_def ld)
  next
    assume e: "sn = ''+''"
    have "ascii_int limit s = map_option int (parse_unsigned limit body)"
      by (simp add: ascii_int_def p(1) e)
    then show ?thesis using pu by (simp add: p(2,3) e literal_value_def ld)
  next
    assume e: "sn = ''-''"
    have "ascii_int limit s = map_option (\<lambda>n. - int n) (parse_unsigned limit body)"
      by (simp add: ascii_int_def p(1) e)
    then show ?thesis using pu by (simp add: p(2,3) e literal_value_def ld)
  qed
qed

lemma ascii_int_sound:
  assumes "ascii_int limit s = Some v"
  shows "int_literal s"
proof -
  from str_strip_decompose [of s] obtain a b where
    s: "s = a @ str_strip s @ b" and a: "list_all is_space a" and b: "list_all is_space b"
    by blast
  from assms obtain c cs where core: "str_strip s = c # cs"
    by (cases "str_strip s") (simp_all add: ascii_int_def)
  have "\<exists>sn body. c # cs = sn @ body \<and> (sn = [] \<or> sn = ''+'' \<or> sn = ''-'') \<and> digitpart body"
  proof (cases "c = CHR ''-'' \<or> c = CHR ''+''")
    case True
    with assms core obtain n where "parse_unsigned limit cs = Some n"
      by (auto simp: ascii_int_def split: if_splits)
    then have "digitpart cs" by (rule parse_unsigned_sound)
    moreover have "c # cs = [c] @ cs" by simp
    ultimately show ?thesis using True by blast
  next
    case False
    with assms core obtain n where "parse_unsigned limit (c # cs) = Some n"
      by (auto simp: ascii_int_def)
    then have "digitpart (c # cs)" by (rule parse_unsigned_sound)
    moreover have "c # cs = [] @ c # cs" by simp
    ultimately show ?thesis by blast
  qed
  then obtain sn body where "c # cs = sn @ body"
    and "sn = [] \<or> sn = ''+'' \<or> sn = ''-''" and "digitpart body" by blast
  with s a b core show ?thesis unfolding int_literal_def by (metis append.assoc)
qed

lemma int_literal_chars:
  assumes "int_literal s"
  shows "\<forall>c \<in> set s. is_space c \<or> c = CHR ''+'' \<or> c = CHR ''-'' \<or> c = CHR ''_'' \<or> is_digit c"
proof -
  from assms obtain a sn body b where
    s: "s = a @ sn @ body @ b" and a: "list_all is_space a" and b: "list_all is_space b"
    and sg: "sn = [] \<or> sn = ''+'' \<or> sn = ''-''" and bd: "digitpart body"
    by (auto simp: int_literal_def)
  from digitpart_props(4) [OF bd] a b sg show ?thesis
    unfolding s by (auto simp: list_all_iff)
qed

lemma int_literal_ascii: "int_literal s \<Longrightarrow> list_all is_ascii s"
  using int_literal_chars [of s]
  by (auto simp: list_all_iff is_ascii_def is_space_def is_digit_def)

lemma int_literal_no_comma: "int_literal s \<Longrightarrow> CHR '','' \<notin> set s"
  using int_literal_chars [of s] by (auto simp: is_space_def is_digit_def)

lemma digits_literal:
  assumes "ds \<noteq> []" and "list_all is_digit ds"
  shows "int_literal ds" and "literal_value ds = int (decimal_value ds)"
    and "literal_digits ds = length ds"
proof -
  from assms(1) obtain d t where ds: "ds = d # t" by (cases ds) auto
  have all: "\<forall>c \<in> set ds. is_digit c" using assms(2) by (simp add: list_all_iff)
  have "digit_tail t" if "\<forall>c \<in> set t. is_digit c" for t
    using that by (induction t) (auto intro: digit_tail.intros)
  then have "digitpart ds" using all ds by (auto simp: digitpart_def)
  then have "ds = [] @ [] @ ds @ [] \<and> list_all is_space [] \<and> list_all is_space []
               \<and> ([] = [] \<or> [] = ''+'' \<or> [] = ''-'') \<and> digitpart ds" by simp
  then show "int_literal ds" unfolding int_literal_def by blast
  have f: "filter is_digit ds = ds" using all by (simp add: filter_id_conv)
  have "CHR ''-'' \<notin> set ds" using all digit_not_sign by blast
  then show "literal_value ds = int (decimal_value ds)" by (simp add: literal_value_def f)
  show "literal_digits ds = length ds" by (simp add: literal_digits_def f)
qed

text \<open>
  C7. A key \<open>video_id,timestamp\<close> with no comma in \<open>video_id\<close> and a timestamp that is
  an integer literal (not over the interpreter's limit on the digits) gives what the sampler gives for \<open>video_id\<close> and the integer denoted, as a
  function of the random source. A key whose number of commas is not one raises
  ValueError, and so does a key \<open>video_id,timestamp\<close> whose ASCII timestamp is not an
  integer literal or is over the interpreter's limit on the digits.
\<close>

theorem getitem_combined_key:
  "(CHR '','' \<notin> set vid \<and> int_literal ts
      \<and> \<not> over_limit (max_str_digits ip) (literal_digits ts) \<longrightarrow>
      getitem cvt loads ip self (vid @ CHR '','' # ts) g
        = sample_long_term_features cvt loads self vid (literal_value ts) g)
   \<and> (count_list key CHR '','' \<noteq> 1 \<longrightarrow> getitem cvt loads ip self key g = Inl ValueError)
   \<and> (CHR '','' \<notin> set vid \<and> CHR '','' \<notin> set ts \<and> list_all is_ascii ts
        \<and> (\<not> int_literal ts \<or> over_limit (max_str_digits ip) (literal_digits ts)) \<longrightarrow>
        getitem cvt loads ip self (vid @ CHR '','' # ts) g = Inl ValueError)"
proof (intro conjI impI)
  assume a: "CHR '','' \<notin> set vid \<and> int_literal ts
      \<and> \<not> over_limit (max_str_digits ip) (literal_digits ts)"
  then have nc: "CHR '','' \<notin> set ts" and asc: "list_all is_ascii ts"
    by (simp_all add: int_literal_no_comma int_literal_ascii)
  have "ascii_int (max_str_digits ip) ts = Some (literal_value ts)"
    using a ascii_int_literal [of ts "max_str_digits ip"] by auto
  then have "py_int ip ts = Some (literal_value ts)" using asc by (simp add: py_int_def)
  then show "getitem cvt loads ip self (vid @ CHR '','' # ts) g
        = sample_long_term_features cvt loads self vid (literal_value ts) g"
    using a nc by (simp add: getitem_def str_split_two)
next
  assume "count_list key CHR '','' \<noteq> 1"
  then have "length (str_split CHR '','' key) \<noteq> 2" by (simp add: length_str_split)
  then show "getitem cvt loads ip self key g = Inl ValueError"
    unfolding getitem_def by (rule not_two_parts)
next
  assume a: "CHR '','' \<notin> set vid \<and> CHR '','' \<notin> set ts \<and> list_all is_ascii ts
        \<and> (\<not> int_literal ts \<or> over_limit (max_str_digits ip) (literal_digits ts))"
  have "ascii_int (max_str_digits ip) ts = None"
  proof (cases "int_literal ts")
    case True
    with a show ?thesis using ascii_int_literal [of ts "max_str_digits ip"] by auto
  next
    case False
    then show ?thesis using ascii_int_sound [of "max_str_digits ip" ts] by (cases "ascii_int (max_str_digits ip) ts") auto
  qed
  then have "py_int ip ts = None" using a by (simp add: py_int_def)
  then show "getitem cvt loads ip self (vid @ CHR '','' # ts) g = Inl ValueError"
    using a by (simp add: getitem_def str_split_two)
qed

theorem getitem_combined_key_witness:
  "getitem (\<lambda>_ _ x. x) (\<lambda>_. Inl EOFError) ex_interp ex_lfb ''vid42,905'' (siterate Suc 1)
     = sample_long_term_features (\<lambda>_ _ x. x) (\<lambda>_. Inl EOFError) ex_lfb ''vid42'' 905 (siterate Suc 1)
   \<and> getitem (\<lambda>_ _ x. x) (\<lambda>_. Inl EOFError) ex_interp ex_lfb ''vid42'' (siterate Suc 1) = Inl ValueError
   \<and> getitem (\<lambda>_ _ x. x) (\<lambda>_. Inl EOFError) ex_interp ex_lfb ''vid42,9x5'' (siterate Suc 1)
       = Inl ValueError"
proof -
  have l: "int_literal ''905''" and v: "literal_value ''905'' = int (decimal_value ''905'')"
    by (rule digits_literal; simp add: is_digit_def)+
  have d: "decimal_value ''905'' = 905" by (simp add: decimal_value_def digit_val_def)
  have n: "\<not> int_literal ''9x5''"
    using int_literal_chars [of "''9x5''"] by (auto simp: is_space_def is_digit_def)
  have a: "list_all is_ascii ''9x5''" by (simp add: is_ascii_def)
  have m: "max_str_digits ex_interp = 0" by (simp add: ex_interp_def)
  from getitem_combined_key [where vid = "''vid42''" and ts = "''905''" and ip = ex_interp
      and cvt = "\<lambda>_ _ x. x" and loads = "\<lambda>_. Inl EOFError" and self = ex_lfb
      and g = "siterate Suc 1" and key = "''vid42''"] l v d m
  have 1: "getitem (\<lambda>_ _ x. x) (\<lambda>_. Inl EOFError) ex_interp ex_lfb ''vid42,905'' (siterate Suc 1)
     = sample_long_term_features (\<lambda>_ _ x. x) (\<lambda>_. Inl EOFError) ex_lfb ''vid42'' 905 (siterate Suc 1)"
    and 2: "getitem (\<lambda>_ _ x. x) (\<lambda>_. Inl EOFError) ex_interp ex_lfb ''vid42'' (siterate Suc 1)
     = Inl ValueError"
    by (simp_all add: over_limit_def)
  from getitem_combined_key [where vid = "''vid42''" and ts = "''9x5''" and ip = ex_interp
      and cvt = "\<lambda>_ _ x. x" and loads = "\<lambda>_. Inl EOFError" and self = ex_lfb
      and g = "siterate Suc 1" and key = "''vid42''"] n a
  have 3: "getitem (\<lambda>_ _ x. x) (\<lambda>_. Inl EOFError) ex_interp ex_lfb ''vid42,9x5'' (siterate Suc 1)
       = Inl ValueError"
    by simp
  from 1 2 3 show ?thesis by blast
qed

subsection \<open>Errors of construction\<close>

text \<open>
  C8. Construction returns ValueError when the prefix path does not exist and when the
  device is none of \<open>gpu\<close>, \<open>cpu\<close>, \<open>lmdb\<close>; on an existing path it returns AssertionError
  when the device is \<open>lmdb\<close> and the lmdb library was not imported (on a missing path
  the ValueError of the path check comes first). In each case the result is an error
  and no object.
\<close>

theorem init_errors:
  "(\<not> path_exists ev prefix \<longrightarrow> init dumps ev prefix K W C dmodes dev construct = Inl ValueError)
   \<and> (dev \<noteq> ''gpu'' \<and> dev \<noteq> ''cpu'' \<and> dev \<noteq> ''lmdb'' \<longrightarrow>
        init dumps ev prefix K W C dmodes dev construct = Inl ValueError)
   \<and> (path_exists ev prefix \<and> dev = ''lmdb'' \<and> \<not> lmdb_imported ev \<longrightarrow>
        init dumps ev prefix K W C dmodes dev construct = Inl AssertionError)
   \<and> (dev = ''lmdb'' \<and> \<not> lmdb_imported ev \<longrightarrow>
        isl (init dumps ev prefix K W C dmodes dev construct))"
  by (simp add: init_def Let_def)

theorem init_errors_witness:
  "init (\<lambda>_. ''r'') ex_env ''nowhere'' 5 60 2048 (ModeTuple [''A'', ''B'']) ''gpu'' True = Inl ValueError
   \<and> init (\<lambda>_. ''r'') ex_env ''data'' 5 60 2048 (ModeTuple [''A'', ''B'']) ''tpu'' True = Inl ValueError
   \<and> init (\<lambda>_. ''r'') (ex_env\<lparr>lmdb_imported := False\<rparr>) ''data'' 5 60 2048 (ModeTuple [''A'', ''B''])
        ''lmdb'' True = Inl AssertionError"
proof -
  have a: "\<not> path_exists ex_env ''nowhere''" by (simp add: ex_env_def)
  have b: "''tpu'' \<noteq> ''gpu'' \<and> ''tpu'' \<noteq> ''cpu'' \<and> ''tpu'' \<noteq> ''lmdb''" by simp
  have c: "path_exists (ex_env\<lparr>lmdb_imported := False\<rparr>) ''data'' \<and> ''lmdb'' = ''lmdb''
             \<and> \<not> lmdb_imported (ex_env\<lparr>lmdb_imported := False\<rparr>)" by (simp add: ex_env_def)
  from init_errors [of ex_env "''nowhere''" "\<lambda>_. ''r''" 5 60 2048 "ModeTuple [''A'', ''B'']" "''gpu''" True] a
  have 1: "init (\<lambda>_. ''r'') ex_env ''nowhere'' 5 60 2048 (ModeTuple [''A'', ''B'']) ''gpu'' True = Inl ValueError"
    by blast
  from init_errors [of ex_env "''data''" "\<lambda>_. ''r''" 5 60 2048 "ModeTuple [''A'', ''B'']" "''tpu''" True] b
  have 2: "init (\<lambda>_. ''r'') ex_env ''data'' 5 60 2048 (ModeTuple [''A'', ''B'']) ''tpu'' True = Inl ValueError"
    by blast
  from init_errors [of "ex_env\<lparr>lmdb_imported := False\<rparr>" "''data''" "\<lambda>_. ''r''" 5 60 2048
      "ModeTuple [''A'', ''B'']" "''lmdb''" True] c
  have 3: "init (\<lambda>_. ''r'') (ex_env\<lparr>lmdb_imported := False\<rparr>) ''data'' 5 60 2048 (ModeTuple [''A'', ''B''])
        ''lmdb'' True = Inl AssertionError"
    by blast
  from 1 2 3 show ?thesis by blast
qed

subsection \<open>A video the backend does not have\<close>

lemma absent_entity_in_memory:
  assumes "device self \<noteq> ''lmdb''" and "lfb self = Some d" and "map_of d video_id = None"
  shows "sample_long_term_features cvt loads self video_id timestamp g = Inl KeyError"
  using assms by (simp add: sample_long_term_features_def get_video_features_def)

lemma absent_entity_in_store:
  assumes "device self = ''lmdb''" and "lmdb_env self = Some txn" and "txn (encode video_id) = None"
  shows "sample_long_term_features cvt loads self video_id timestamp g
           = Inl (if encode video_id = [] then BadValsizeError else EOFError)"
  using assms
  by (simp add: sample_long_term_features_def get_video_features_def txn_get_def bytes_io_def
        torch_load_buf_def)

text \<open>
  C6. The dict of the in-memory backends raises KeyError, a lookup error, for a video it
  does not have. The lmdb backend does not: \<open>txn.get\<close> gives None for the key that is
  not in the store, the None is not checked, and loading from the empty buffer raises
  EOFError, which is no lookup error.
\<close>

theorem absent_entity_on_lmdb:
  "sample_long_term_features (\<lambda>_ _ x. x) (\<lambda>_. Inr ex_features) ex_lmdb_lfb ''nope'' 11 (siterate Suc 1)
     = Inl EOFError
   \<and> \<not> is_lookup_error EOFError
   \<and> sample_long_term_features (\<lambda>_ _ x. x) (\<lambda>_. Inr ex_features) ex_lfb ''nope'' 11 (siterate Suc 1)
     = Inl KeyError
   \<and> is_lookup_error KeyError"
  by (simp add: sample_long_term_features_def get_video_features_def ex_lmdb_lfb_def ex_lfb_def
        encode_def txn_get_def bytes_io_def torch_load_buf_def is_lookup_error_def)

subsection \<open>The three backends\<close>

lemma assign_rows_cong:
  assumes "max_num_sampled_feat s' = max_num_sampled_feat s" and "lfb_channels s' = lfb_channels s"
  shows "assign_rows cvt s' lt feats idx k rs = assign_rows cvt s lt feats idx k rs"
  using assms by (induction rs arbitrary: lt k) (simp_all split: sum.splits)

lemma sample_loop_cong:
  assumes "max_num_sampled_feat s' = max_num_sampled_feat s" and "lfb_channels s' = lfb_channels s"
  shows "sample_loop cvt s' vf lt idx secs g = sample_loop cvt s vf lt idx secs g"
proof (induction secs arbitrary: lt idx g)
  case Nil
  then show ?case by simp
next
  case (Cons sec secs)
  have r: "random_lfb_indices s' feats g = random_lfb_indices s feats g" for feats
    using assms(1) by (simp add: random_lfb_indices_def)
  show ?case
    using Cons.IH r assign_rows_cong [OF assms]
    by (simp split: option.splits sum.splits prod.splits)
qed

lemma sample_long_term_features_cong:
  assumes "get_video_features loads s' video_id = get_video_features loads s video_id"
    and "max_num_sampled_feat s' = max_num_sampled_feat s" and "lfb_channels s' = lfb_channels s"
    and "window_size s' = window_size s"
  shows "sample_long_term_features cvt loads s' video_id timestamp g
           = sample_long_term_features cvt loads s video_id timestamp g"
  unfolding sample_long_term_features_def assms sample_loop_cong [OF assms(2,3)] ..

lemma load_modes_cong:
  assumes "files ev' = files ev" and "normpath ev' = normpath ev"
  shows "load_modes ev' prefix d ms = load_modes ev prefix d ms"
  using assms by (induction ms arbitrary: d) (simp_all add: lfb_path_def split: option.splits)

lemma distinct_dict_update:
  "distinct (map fst d) \<Longrightarrow> distinct (map fst (dict_update d other))"
proof (induction other arbitrary: d)
  case Nil
  then show ?case by (simp add: dict_update_def)
next
  case (Cons kv other)
  obtain k v where kv: "kv = (k, v)" by (cases kv)
  have "dict_update d (kv # other) = dict_update (AList.update k v d) other"
    by (simp add: dict_update_def kv)
  moreover have "distinct (map fst (AList.update k v d))"
    using Cons.prems by (rule distinct_update)
  ultimately show ?case using Cons.IH by simp
qed

lemma load_modes_distinct:
  "load_modes ev prefix d ms = Inr d' \<Longrightarrow> distinct (map fst d) \<Longrightarrow> distinct (map fst d')"
proof (induction ms arbitrary: d)
  case Nil
  then show ?case by simp
next
  case (Cons m ms)
  from Cons.prems(1) obtain part where
    r: "load_modes ev prefix (dict_update d part) ms = Inr d'"
    by (auto split: option.splits)
  from Cons.IH [OF r distinct_dict_update [OF Cons.prems(2)]] show ?case .
qed

lemma lmdb_put_all_lookup:
  "lmdb_put_all dumps items st = Inr st' \<Longrightarrow>
     st' k = (case map_of (rev items) k of None \<Rightarrow> st k | Some v \<Rightarrow> Some (dumps v))"
proof (induction items arbitrary: st)
  case Nil
  then show ?case by simp
next
  case (Cons kv items)
  obtain k' v' where kv: "kv = (k', v')" by (cases kv)
  from Cons.prems have r: "lmdb_put_all dumps items (st(k' \<mapsto> dumps v')) = Inr st'"
    by (auto simp: kv txn_put_def encode_def split: if_splits)
  have step: "st' k =
      (case map_of (rev items) k of None \<Rightarrow> (st(k' \<mapsto> dumps v')) k | Some v \<Rightarrow> Some (dumps v))"
    by (rule Cons.IH [OF r])
  show ?case
  proof (cases "map_of (rev items) k")
    case None
    then show ?thesis unfolding step by (simp add: kv map_add_def)
  next
    case (Some v)
    then show ?thesis unfolding step by (simp add: kv map_add_def)
  qed
qed

lemma lmdb_put_all_keys:
  "lmdb_put_all dumps items st = Inr st' \<Longrightarrow> (k, v) \<in> set items \<Longrightarrow> encode k \<noteq> []"
proof (induction items arbitrary: st)
  case Nil
  then show ?case by simp
next
  case (Cons kv items)
  obtain k' v' where kv: "kv = (k', v')" by (cases kv)
  from Cons.prems(1) obtain st1 where p: "txn_put st (encode k') (dumps v') = Inr st1"
    and r: "lmdb_put_all dumps items st1 = Inr st'"
    by (auto simp: kv split: sum.splits)
  from p have "encode k' \<noteq> []" by (auto simp: txn_put_def split: if_splits)
  with Cons.IH [OF r] Cons.prems(2) show ?case by (auto simp: kv)
qed

lemma lmdb_put_all_stored:
  assumes "lmdb_put_all dumps items st = Inr st'"
    and "distinct (map fst items)" and "map_of items k = Some v"
  shows "txn_get st' (encode k) = Inr (Some (dumps v))"
proof -
  have "(k, v) \<in> set items" using assms(3) by (rule map_of_SomeD)
  then have "encode k \<noteq> []" by (rule lmdb_put_all_keys [OF assms(1)])
  moreover have "st' (encode k) = Some (dumps v)"
    using lmdb_put_all_lookup [OF assms(1), of "encode k"] assms(2,3)
    by (simp add: map_of_rev_distinct encode_def)
  ultimately show ?thesis by (simp add: txn_get_def)
qed

lemma init_memory:
  assumes "init dumps ev prefix K W C dmodes dev construct = Inr (s, e)"
    and "dev = ''gpu'' \<or> dev = ''cpu''"
  shows "\<exists>d. load_modes ev prefix [] (case dmodes of ModeTuple ms \<Rightarrow> ms | ModeStr m \<Rightarrow> [m]) = Inr d
           \<and> lfb s = Some d \<and> device s = dev \<and> max_num_sampled_feat s = K
           \<and> window_size s = W \<and> lfb_channels s = C"
proof -
  let ?ms = "case dmodes of ModeTuple ms \<Rightarrow> ms | ModeStr m \<Rightarrow> [m]"
  have c: "load_modes (ev\<lparr>warnings := Suc (warnings ev)\<rparr>) prefix [] ?ms = load_modes ev prefix [] ?ms"
    by (rule load_modes_cong) simp_all
  from assms show ?thesis
    unfolding init_def load_lfb_def Let_def
    by (auto simp: c split: if_splits sum.splits)
qed

lemma init_lmdb:
  assumes "init dumps ev prefix K W C dmodes ''lmdb'' True = Inr (s, e)" and "rank ev = 0"
  shows "\<exists>d st st'. load_modes ev prefix [] (case dmodes of ModeTuple ms \<Rightarrow> ms | ModeStr m \<Rightarrow> [m]) = Inr d
           \<and> lmdb_put_all dumps d st = Inr st' \<and> lmdb_env s = Some st' \<and> device s = ''lmdb''
           \<and> max_num_sampled_feat s = K \<and> window_size s = W \<and> lfb_channels s = C"
  using assms
  unfolding init_def load_lfb_on_lmdb_def Let_def
  by (auto split: if_splits sum.splits option.splits)

text \<open>
  C9. Let the bank be constructed from the same files on the devices \<open>gpu\<close>, \<open>cpu\<close> and
  \<open>lmdb\<close> (the store built by this process), and let the video be in the loaded bank
  with features that \<open>torch.load\<close> reads back from what \<open>torch.save\<close> wrote. Then for
  the same timestamp and the same state of the random source the three objects return
  the same result: the same block and the same next state.
\<close>

theorem backends_agree:
  assumes "init dumps ev prefix K W C dmodes ''gpu'' construct = Inr (s1, e1)"
    and "init dumps ev prefix K W C dmodes ''cpu'' construct = Inr (s2, e2)"
    and "init dumps ev prefix K W C dmodes ''lmdb'' True = Inr (s3, e3)"
    and "rank ev = 0"
    and "lfb s1 = Some d" and "map_of d video_id = Some vf"
    and "torch_load_buf loads (dumps vf) = Inr vf"
  shows "sample_long_term_features cvt loads s1 video_id timestamp g
           = sample_long_term_features cvt loads s2 video_id timestamp g
       \<and> sample_long_term_features cvt loads s2 video_id timestamp g
           = sample_long_term_features cvt loads s3 video_id timestamp g"
proof -
  let ?ms = "case dmodes of ModeTuple ms \<Rightarrow> ms | ModeStr m \<Rightarrow> [m]"
  from init_memory [OF assms(1)] assms(5) have
    l: "load_modes ev prefix [] ?ms = Inr d" and f1: "device s1 = ''gpu''"
    "max_num_sampled_feat s1 = K" "window_size s1 = W" "lfb_channels s1 = C"
    by auto
  from init_memory [OF assms(2)] l have
    f2: "lfb s2 = Some d" "device s2 = ''cpu''"
    "max_num_sampled_feat s2 = K" "window_size s2 = W" "lfb_channels s2 = C"
    by auto
  from init_lmdb [OF assms(3,4)] l obtain st st' where
    pa: "lmdb_put_all dumps d st = Inr st'" and
    f3: "lmdb_env s3 = Some st'" "device s3 = ''lmdb''"
    "max_num_sampled_feat s3 = K" "window_size s3 = W" "lfb_channels s3 = C"
    by auto
  have dd: "distinct (map fst d)" by (rule load_modes_distinct [OF l]) simp
  have g1: "get_video_features loads s1 video_id = Inr vf"
    using f1(1) assms(5,6) by (simp add: get_video_features_def)
  have g2: "get_video_features loads s2 video_id = Inr vf"
    using f2(1,2) assms(6) by (simp add: get_video_features_def)
  have "txn_get st' (encode video_id) = Inr (Some (dumps vf))"
    by (rule lmdb_put_all_stored [OF pa dd assms(6)])
  then have g3: "get_video_features loads s3 video_id = Inr vf"
    using f3(1,2) assms(7) by (simp add: get_video_features_def bytes_io_def)
  have a: "sample_long_term_features cvt loads s1 video_id timestamp g
           = sample_long_term_features cvt loads s2 video_id timestamp g"
    by (rule sample_long_term_features_cong) (simp_all add: g1 g2 f1 f2)
  have b: "sample_long_term_features cvt loads s2 video_id timestamp g
           = sample_long_term_features cvt loads s3 video_id timestamp g"
    by (rule sample_long_term_features_cong) (simp_all add: g2 g3 f2 f3)
  from a b show ?thesis ..
qed

lemmas init_defs =
  init_def load_lfb_def load_lfb_on_lmdb_def lfb_path_def osp_join_def dict_update_def
  txn_put_def encode_def Let_def

theorem backends_agree_witness:
  "\<exists>s1 e1 s2 e2 s3 e3.
      init (\<lambda>_. ''blob'') ex_env ''data'' 2 4 3 (ModeTuple [''A'', ''B'']) ''gpu'' True = Inr (s1, e1)
    \<and> init (\<lambda>_. ''blob'') ex_env ''data'' 2 4 3 (ModeTuple [''A'', ''B'']) ''cpu'' True = Inr (s2, e2)
    \<and> init (\<lambda>_. ''blob'') ex_env ''data'' 2 4 3 (ModeTuple [''A'', ''B'']) ''lmdb'' True = Inr (s3, e3)
    \<and> sample_long_term_features (\<lambda>_ _ x. x) (\<lambda>_. Inr ex_features_B) s1 ''x'' 901 (siterate Suc 1)
        = sample_long_term_features (\<lambda>_ _ x. x) (\<lambda>_. Inr ex_features_B) s2 ''x'' 901 (siterate Suc 1)
    \<and> sample_long_term_features (\<lambda>_ _ x. x) (\<lambda>_. Inr ex_features_B) s2 ''x'' 901 (siterate Suc 1)
        = sample_long_term_features (\<lambda>_ _ x. x) (\<lambda>_. Inr ex_features_B) s3 ''x'' 901 (siterate Suc 1)"
proof -
  obtain s1 e1 where i1:
    "init (\<lambda>_. ''blob'') ex_env ''data'' 2 4 3 (ModeTuple [''A'', ''B'']) ''gpu'' True = Inr (s1, e1)"
    and l1: "lfb s1 = Some [(''x'', ex_features_B), (''y'', ex_features_A)]"
    by (simp add: init_defs ex_env_def)
  obtain s2 e2 where i2:
    "init (\<lambda>_. ''blob'') ex_env ''data'' 2 4 3 (ModeTuple [''A'', ''B'']) ''cpu'' True = Inr (s2, e2)"
    by (simp add: init_defs ex_env_def)
  obtain s3 e3 where i3:
    "init (\<lambda>_. ''blob'') ex_env ''data'' 2 4 3 (ModeTuple [''A'', ''B'']) ''lmdb'' True = Inr (s3, e3)"
    by (simp add: init_defs ex_env_def)
  have r: "rank ex_env = 0" by (simp add: ex_env_def)
  have m: "map_of [(''x'', ex_features_B), (''y'', ex_features_A)] ''x'' = Some ex_features_B" by simp
  have t: "torch_load_buf (\<lambda>_. Inr ex_features_B) ((\<lambda>_. ''blob'') ex_features_B) = Inr ex_features_B"
    by (simp add: torch_load_buf_def)
  from backends_agree [OF i1 i2 i3 r l1 m t, of "\<lambda>_ _ x. x" 901 "siterate Suc 1"] i1 i2 i3
  show ?thesis by blast
qed

end
